theory Spec2Isabelle
  imports Complex_Main
begin

section \<open>Mel-frequency cepstral analysis (phd/mfcc.py)\<close>

text \<open>
  A shallow embedding of the feature pipeline of \<^verbatim>\<open>phd/mfcc.py\<close>: pre-emphasis, framing
  and overlap-add, the power spectrum, the Mel filterbank and the cepstral transform.

  Conventions of the embedding.
  \<^item> A one-dimensional numpy array is a list, a two-dimensional one is the list of its rows.
    The empty list of rows stands for an array with no rows.
  \<^item> A float64 is a \<^typ>\<open>real\<close>: arithmetic is exact, there is neither rounding nor
    overflow. Where numpy produces a non-finite float from finite arguments (division by
    zero, the logarithm of a non-positive number) the result is \<open>None\<close> of type
    \<^typ>\<open>real option\<close>; \<open>Some x\<close> is the finite float \<open>x\<close>.
  \<^item> Whether the logarithms of \<open>logfbank\<close> are finite depends on the range of float64.
    For that question alone the stages from \<^verbatim>\<open>np.square\<close> on are embedded a second time,
    with overflow (the functions named \<open>_float64\<close>); rounding is not modelled there either.
  \<^item> A Python exception is a value \<open>Inl e\<close> of the result type \<open>error + 'a\<close>.
  \<^item> Integers are Python's unbounded integers, type \<^typ>\<open>int\<close>. The module runs under
    Python 2 and 3; \<^verbatim>\<open>round\<close> is Python 3's here, and \<^verbatim>\<open>n_fft/2+1\<close>, the number of columns
    of the filterbank, is the integer quotient plus one under both (Python 3 passes a float
    dimension, which numpy truncates).
\<close>

datatype error = AssertionError | IndexError | ValueError | ZeroDivisionError | OverflowError

type_synonym xreal = "real option"

subsection \<open>Python and numpy primitives\<close>

text \<open>
  Python 3's \<^verbatim>\<open>round\<close> on a float: to the nearest integer, a tie to the even one
  (Python 2 rounds a tie away from zero). The statements below are about the rounded
  values and do not depend on how a tie is resolved.
\<close>

definition py_round :: "real \<Rightarrow> int" where
  "py_round x =
     (let f = \<lfloor>x\<rfloor>; d = x - of_int f
      in if d < 1 / 2 then f else if 1 / 2 < d then f + 1 else if even f then f else f + 1)"

text \<open>\<^verbatim>\<open>range(a, b)\<close> for integers.\<close>

definition py_range :: "int \<Rightarrow> int \<Rightarrow> int list" where
  "py_range a b = map (\<lambda>k. a + int k) [0..<nat (b - a)]"

text \<open>The slice \<^verbatim>\<open>xs[:n]\<close>: a negative bound counts from the end.\<close>

definition py_take :: "int \<Rightarrow> 'a list \<Rightarrow> 'a list" where
  "py_take n xs = (if 0 \<le> n then take (nat n) xs else take (nat (int (length xs) + n)) xs)"

text \<open>An index into an axis of length \<open>n\<close>: negative indices wrap once, anything else raises.\<close>

definition np_index :: "nat \<Rightarrow> int \<Rightarrow> error + nat" where
  "np_index n i =
     (if 0 \<le> i \<and> i < int n then Inr (nat i)
      else if - int n \<le> i \<and> i < 0 then Inr (nat (i + int n))
      else Inl IndexError)"

fun np_indices :: "nat \<Rightarrow> int list \<Rightarrow> error + nat list" where
  "np_indices n [] = Inr []"
| "np_indices n (i # rest) =
     (case np_index n i of
        Inl e \<Rightarrow> Inl e
      | Inr p \<Rightarrow> (case np_indices n rest of Inl e \<Rightarrow> Inl e | Inr ps \<Rightarrow> Inr (p # ps)))"

text \<open>\<^verbatim>\<open>a[idx]\<close> for an index array \<open>idx\<close>.\<close>

definition np_take :: "real list \<Rightarrow> int list \<Rightarrow> error + real list" where
  "np_take a idx =
     (case np_indices (length a) idx of Inl e \<Rightarrow> Inl e | Inr ps \<Rightarrow> Inr (map (\<lambda>p. a ! p) ps))"

fun np_take_rows :: "real list \<Rightarrow> int list list \<Rightarrow> error + real list list" where
  "np_take_rows a [] = Inr []"
| "np_take_rows a (idx # rest) =
     (case np_take a idx of
        Inl e \<Rightarrow> Inl e
      | Inr r \<Rightarrow> (case np_take_rows a rest of Inl e \<Rightarrow> Inl e | Inr rs \<Rightarrow> Inr (r # rs)))"


text \<open>
  \<^verbatim>\<open>frames * np.tile(w, (numframes, 1))\<close> for frames of \<open>n\<close> columns, with numpy's
  broadcasting of an axis of length one.
\<close>

definition np_mul_rows :: "nat \<Rightarrow> real list list \<Rightarrow> real list \<Rightarrow> error + real list list" where
  "np_mul_rows n frames w =
     (if length w = n then Inr (map (\<lambda>r. map2 (*) r w) frames)
      else if length w = 1 then Inr (map (map (\<lambda>x. x * hd w)) frames)
      else if n = 1 then Inr (map (\<lambda>r. map (\<lambda>y. hd r * y) w) frames)
      else Inl ValueError)"


text \<open>\<^verbatim>\<open>np.log\<close>: \<open>-inf\<close> at zero and \<open>nan\<close> below it.\<close>

definition np_log :: "real \<Rightarrow> xreal" where
  "np_log x = (if 0 < x then Some (ln x) else None)"

text \<open>\<^verbatim>\<open>np.finfo(float).eps\<close>.\<close>

definition float_eps :: real where
  "float_eps = 1 / 2 ^ 52"

text \<open>\<^verbatim>\<open>x[x == 0] = np.finfo(float).eps\<close>, on one entry.\<close>

definition floor_eps :: "real \<Rightarrow> real" where
  "floor_eps x = (if x = 0 then float_eps else x)"

text \<open>\<^verbatim>\<open>np.linspace(start, stop, num)\<close>.\<close>

definition linspace :: "real \<Rightarrow> real \<Rightarrow> nat \<Rightarrow> real list" where
  "linspace start stop num =
     map (\<lambda>k. start + real k * ((stop - start) / real (num - 1))) [0..<num]"

text \<open>\<^verbatim>\<open>np.dot(A, B.T)\<close>: the rows of \<open>A\<close> against the rows of \<open>B\<close>.\<close>

definition np_dot_T :: "real list list \<Rightarrow> real list list \<Rightarrow> error + real list list" where
  "np_dot_T A B =
     (if list_all (\<lambda>a. list_all (\<lambda>b. length a = length b) B) A
      then Inr (map (\<lambda>a. map (\<lambda>b. sum_list (map2 (*) a b)) B) A)
      else Inl ValueError)"

text \<open>\<^verbatim>\<open>np.hstack\<close>: the blocks side by side; they must have the same number of rows.\<close>

definition np_hstack :: "'a list list list \<Rightarrow> error + 'a list list" where
  "np_hstack blocks =
     (case blocks of
        [] \<Rightarrow> Inl ValueError
      | b # bs \<Rightarrow>
          if list_all (\<lambda>c. length c = length b) bs
          then Inr (map (\<lambda>i. concat (map (\<lambda>c. c ! i) (b # bs))) [0..<length b])
          else Inl ValueError)"

subsection \<open>The helpers of \<^verbatim>\<open>phd/utils.py\<close>\<close>

text \<open>
  Modelled from the spec: \<^verbatim>\<open>hz2mel\<close> and \<^verbatim>\<open>mel2hz\<close> of \<^verbatim>\<open>phd/utils.py\<close>, which is not among
  the sources. The spec gives \<open>hz_to_mel(f) = 2595*log10(1+f/700)\<close> and its inverse, the
  corresponding exponential map. The third helper, \<^verbatim>\<open>derivative\<close>, is a parameter of
  \<open>mfcc\<close> below.
\<close>

definition hz2mel :: "real \<Rightarrow> real" where
  "hz2mel hz = 2595 * log 10 (1 + hz / 700)"

definition mel2hz :: "real \<Rightarrow> real" where
  "mel2hz mel = 700 * (10 powr (mel / 2595) - 1)"

subsection \<open>Pre-emphasis\<close>

definition preemphasis :: "real list \<Rightarrow> real \<Rightarrow> error + real list" where
  "preemphasis signal coeff =
     (case signal of
        [] \<Rightarrow> Inl IndexError
      | s0 # rest \<Rightarrow> Inr (s0 # map2 (\<lambda>a b. a - coeff * b) rest (butlast signal)))"

subsection \<open>Framing and overlap-add\<close>

text \<open>The default window, \<^verbatim>\<open>lambda x: np.ones(x)\<close>.\<close>

definition np_ones :: "int \<Rightarrow> real list" where
  "np_ones n = replicate (nat n) 1"

text \<open>The branch of \<open>framesig\<close> that counts the frames, on the rounded geometry.\<close>

definition numframes :: "int \<Rightarrow> int \<Rightarrow> int \<Rightarrow> error + int" where
  "numframes slen frame_len frame_step =
     (if slen \<le> frame_len then Inr 1
      else if frame_step = 0 then Inl ZeroDivisionError
      else Inr (1 + \<lceil>(real_of_int slen - real_of_int frame_len) / real_of_int frame_step\<rceil>))"

text \<open>
  The index matrix that \<open>framesig\<close> and \<open>deframesig\<close> both build from two \<^verbatim>\<open>np.tile\<close>s:
  entry \<open>(i, j)\<close> is \<open>j + i * frame_step\<close>. A negative repetition count and a zero step of
  \<^verbatim>\<open>np.arange\<close> raise.
\<close>

definition frame_indices :: "int \<Rightarrow> int \<Rightarrow> int \<Rightarrow> error + int list list" where
  "frame_indices frame_len frame_step nf =
     (if nf < 0 then Inl ValueError
      else if frame_step = 0 then Inl ZeroDivisionError
      else if frame_len < 0 then Inl ValueError
      else Inr (map (\<lambda>i. map (\<lambda>j. int j + int i * frame_step) [0..<nat frame_len])
                  [0..<nat nf]))"

definition padsignal :: "real list \<Rightarrow> int \<Rightarrow> real list" where
  "padsignal sig padlen = sig @ replicate (nat (padlen - int (length sig))) 0"

text \<open>
  \<open>framesig\<close>: the frames are rows of the padded signal, taken at the index matrix and
  multiplied by the window. \<^verbatim>\<open>np.zeros\<close> rejects a negative padding length.
\<close>

definition framesig ::
  "real list \<Rightarrow> real \<Rightarrow> real \<Rightarrow> (int \<Rightarrow> real list) \<Rightarrow> error + real list list" where
  "framesig sig frame_len frame_step winfunc =
     (let slen = int (length sig);
          fl = py_round frame_len;
          st = py_round frame_step
      in case numframes slen fl st of
           Inl e \<Rightarrow> Inl e
         | Inr nf \<Rightarrow>
             (let padlen = (nf - 1) * st + fl
              in if padlen - slen < 0 then Inl ValueError
                 else (case frame_indices fl st nf of
                         Inl e \<Rightarrow> Inl e
                       | Inr indices \<Rightarrow>
                           (case np_take_rows (padsignal sig padlen) indices of
                              Inl e \<Rightarrow> Inl e
                            | Inr frames \<Rightarrow> np_mul_rows (nat fl) frames (winfunc fl)))))"



subsection \<open>Spectral estimation\<close>

text \<open>
  \<^verbatim>\<open>np.fft.rfft(x, n)\<close> on one frame: the frame is cut or zero-padded to \<open>n\<close> samples, and
  the bins \<open>0, \<dots>, n div 2\<close> of its discrete Fourier transform are returned.
\<close>

definition rfft :: "real list \<Rightarrow> nat \<Rightarrow> complex list" where
  "rfft x n =
     (let xs = take n x @ replicate (n - length x) 0
      in map (\<lambda>k. \<Sum>t<n. of_real (xs ! t) * cis (- (2 * pi * real k * real t / real n)))
           [0..<n div 2 + 1])"

text \<open>numpy rejects an FFT size below one.\<close>

definition magspec :: "real list list \<Rightarrow> int \<Rightarrow> error + real list list" where
  "magspec frames N_FFT =
     (if N_FFT < 1 then Inl ValueError
      else Inr (map (\<lambda>fr. map cmod (rfft fr (nat N_FFT))) frames))"

text \<open>\<^verbatim>\<open>1.0 / N_FFT\<close> is evaluated first, a Python division.\<close>

definition powspec :: "real list list \<Rightarrow> int \<Rightarrow> error + real list list" where
  "powspec frames N_FFT =
     (if N_FFT = 0 then Inl ZeroDivisionError
      else (case magspec frames N_FFT of
              Inl e \<Rightarrow> Inl e
            | Inr m \<Rightarrow> Inr (map (map (\<lambda>x. 1 / real_of_int N_FFT * x ^ 2)) m)))"

subsection \<open>The Mel filterbank\<close>

text \<open>The control bins \<^verbatim>\<open>fbin\<close>: \<open>n_filters + 2\<close> points evenly spaced in mels, as FFT bins.\<close>

definition fbin :: "int \<Rightarrow> int \<Rightarrow> real \<Rightarrow> real \<Rightarrow> real \<Rightarrow> int list" where
  "fbin n_filters n_fft fs minfreq maxfreq =
     map (\<lambda>m. \<lfloor>real_of_int (n_fft + 1) * mel2hz m / fs\<rfloor>)
       (linspace (hz2mel minfreq) (hz2mel maxfreq) (nat (n_filters + 2)))"

text \<open>\<^verbatim>\<open>for i in idx: row[i] = f(i)\<close>, on one row of the matrix.\<close>

fun set_range :: "real list \<Rightarrow> int list \<Rightarrow> (int \<Rightarrow> real) \<Rightarrow> error + real list" where
  "set_range row [] f = Inr row"
| "set_range row (i # rest) f =
     (case np_index (length row) i of
        Inl e \<Rightarrow> Inl e
      | Inr p \<Rightarrow> set_range (row[p := f i]) rest f)"

text \<open>The two inner loops for one filter with control bins \<open>b0\<close>, \<open>b1\<close>, \<open>b2\<close>.\<close>

definition filter_row :: "nat \<Rightarrow> int \<Rightarrow> int \<Rightarrow> int \<Rightarrow> error + real list" where
  "filter_row ncols b0 b1 b2 =
     (case set_range (replicate ncols 0) (py_range b0 b1)
             (\<lambda>i. (of_int i - of_int b0) / (of_int b1 - of_int b0)) of
        Inl e \<Rightarrow> Inl e
      | Inr row \<Rightarrow>
          set_range row (py_range b1 b2)
            (\<lambda>i. (of_int b2 - of_int i) / (of_int b2 - of_int b1)))"

text \<open>A loop that builds one row after the other: the first exception ends it.\<close>

fun collect :: "(error + 'a) list \<Rightarrow> error + 'a list" where
  "collect [] = Inr []"
| "collect (r # rest) =
     (case r of
        Inl e \<Rightarrow> Inl e
      | Inr x \<Rightarrow> (case collect rest of Inl e \<Rightarrow> Inl e | Inr xs \<Rightarrow> Inr (x # xs)))"

text \<open>
  \<open>get_filterbanks\<close>. The matrix has \<open>n_fft div 2 + 1\<close> columns; a negative dimension
  makes \<^verbatim>\<open>np.zeros\<close> (or \<^verbatim>\<open>np.linspace\<close>) raise. Outside the domain of the Mel scale (a
  band edge at or below -700 Hz) and at a zero sample rate the control bins are not
  finite, and \<^verbatim>\<open>int(fbin[j])\<close> raises as soon as there is a filter to build: ValueError
  on a nan, OverflowError on an infinity.
\<close>

definition get_filterbanks ::
  "int \<Rightarrow> int \<Rightarrow> real \<Rightarrow> real \<Rightarrow> real option \<Rightarrow> error + real list list" where
  "get_filterbanks n_filters n_fft fs minfreq maxfreq_arg =
     (let maxfreq = (case maxfreq_arg of None \<Rightarrow> of_int \<lfloor>fs / 2\<rfloor> | Some m \<Rightarrow> m);
          ncols = n_fft div 2 + 1;
          bins = fbin n_filters n_fft fs minfreq maxfreq
      in if \<not> maxfreq \<le> of_int \<lfloor>fs / 2\<rfloor> then Inl AssertionError
         else if n_filters < 0 \<or> ncols < 0 then Inl ValueError
         else if n_filters = 0 then Inr []
         else if minfreq \<le> - 700 \<or> maxfreq \<le> - 700 then Inl ValueError
         else if fs = 0
         then (if real_of_int (n_fft + 1) * minfreq = 0 then Inl ValueError
               else Inl OverflowError)
         else collect (map (\<lambda>j. filter_row (nat ncols) (bins ! j) (bins ! (j + 1))
                                  (bins ! (j + 2)))
                         [0..<nat n_filters]))"

subsection \<open>Filterbank energies and cepstra\<close>

definition fbank ::
  "real list \<Rightarrow> real \<Rightarrow> real \<Rightarrow> real \<Rightarrow> int \<Rightarrow> int \<Rightarrow> real \<Rightarrow> real option \<Rightarrow> real \<Rightarrow>
   error + real list list \<times> real list" where
  "fbank audio fs window_dt dt n_filters n_fft minfreq maxfreq_arg preemph =
     (let maxfreq = (case maxfreq_arg of None \<Rightarrow> of_int \<lfloor>fs / 2\<rfloor> | Some m \<Rightarrow> m)
      in case preemphasis audio preemph of
           Inl e \<Rightarrow> Inl e
         | Inr audio' \<Rightarrow>
             (case framesig audio' (window_dt * fs) (dt * fs) np_ones of
                Inl e \<Rightarrow> Inl e
              | Inr frames \<Rightarrow>
                  (case powspec frames n_fft of
                     Inl e \<Rightarrow> Inl e
                   | Inr pspec \<Rightarrow>
                       (let energy = map (\<lambda>row. floor_eps (sum_list row)) pspec
                        in case get_filterbanks n_filters n_fft fs minfreq (Some maxfreq) of
                             Inl e \<Rightarrow> Inl e
                           | Inr fb \<Rightarrow>
                               (case np_dot_T pspec fb of
                                  Inl e \<Rightarrow> Inl e
                                | Inr feat \<Rightarrow> Inr (map (map floor_eps) feat, energy))))))"

definition logfbank ::
  "real list \<Rightarrow> real \<Rightarrow> real \<Rightarrow> real \<Rightarrow> int \<Rightarrow> int \<Rightarrow> real \<Rightarrow> real option \<Rightarrow> real \<Rightarrow>
   error + xreal list list" where
  "logfbank audio fs window_dt dt n_filters n_fft minfreq maxfreq_arg preemph =
     (case fbank audio fs window_dt dt n_filters n_fft minfreq maxfreq_arg preemph of
        Inl e \<Rightarrow> Inl e
      | Inr (feat, energy) \<Rightarrow> Inr (map (map np_log) feat))"

text \<open>
  \<^verbatim>\<open>scipy.fftpack.dct(x, type=2, norm='ortho')\<close> on one row. A non-finite entry makes
  every coefficient of the row non-finite; scipy rejects a row of length zero.
\<close>

definition dct_ortho :: "real list \<Rightarrow> real list" where
  "dct_ortho x =
     (let N = length x
      in map (\<lambda>k. (if k = 0 then sqrt (1 / (4 * real N)) else sqrt (1 / (2 * real N)))
                   * (2 * (\<Sum>n<N. x ! n * cos (pi * real k * (2 * real n + 1) / (2 * real N)))))
           [0..<N])"

definition dct_row :: "xreal list \<Rightarrow> xreal list" where
  "dct_row r =
     (if list_all (\<lambda>v. v \<noteq> None) r then map Some (dct_ortho (map the r))
      else replicate (length r) None)"

definition dct :: "nat \<Rightarrow> xreal list list \<Rightarrow> error + xreal list list" where
  "dct ncols m = (if ncols = 0 then Inl ValueError else Inr (map dct_row m))"

text \<open>
  \<open>lifter\<close>: coefficient \<open>n\<close> of every row is scaled by \<open>1 + (L / 2) * sin(pi * n / L)\<close>; the
  coefficient \<open>L\<close> is a float.
\<close>

definition lifter :: "xreal list list \<Rightarrow> real \<Rightarrow> xreal list list" where
  "lifter cepstra L =
     (if L \<le> 0 then cepstra
      else map (\<lambda>row. map2 (\<lambda>n c. map_option (\<lambda>v. (1 + L / 2 * sin (pi * real n / L)) * v) c)
                        [0..<length row] row)
             cepstra)"

text \<open>The loop that stacks the derivatives: each one is taken of the block before it.\<close>

fun derivs ::
  "(xreal list list \<Rightarrow> int \<Rightarrow> xreal list list) \<Rightarrow> int \<Rightarrow> xreal list list \<Rightarrow> nat \<Rightarrow>
   xreal list list list" where
  "derivs derivative deriv_spread target 0 = []"
| "derivs derivative deriv_spread target (Suc n) =
     derivative target deriv_spread
       # derivs derivative deriv_spread (derivative target deriv_spread) n"

text \<open>
  \<open>mfcc\<close>. Its first argument is the helper \<^verbatim>\<open>derivative\<close> of \<^verbatim>\<open>phd/utils.py\<close>. After
  the slice \<^verbatim>\<open>[:, :n_cepstra]\<close> the matrix has \<open>length (py_take n_cepstra [0..<n_filters])\<close>
  columns; \<^verbatim>\<open>feat[:, 0] = ...\<close> raises when there is none.
\<close>

definition mfcc ::
  "(xreal list list \<Rightarrow> int \<Rightarrow> xreal list list) \<Rightarrow>
   real list \<Rightarrow> real \<Rightarrow> real \<Rightarrow> real \<Rightarrow> int \<Rightarrow> int \<Rightarrow> int \<Rightarrow> real \<Rightarrow> real option \<Rightarrow> real \<Rightarrow> real \<Rightarrow>
   bool \<Rightarrow> int \<Rightarrow> int \<Rightarrow> error + xreal list list" where
  "mfcc derivative audio fs window_dt dt n_cepstra n_filters n_fft minfreq maxfreq_arg preemph
     lift energy n_derivatives deriv_spread =
     (case fbank audio fs window_dt dt n_filters n_fft minfreq maxfreq_arg preemph of
        Inl e \<Rightarrow> Inl e
      | Inr (feat0, energy_) \<Rightarrow>
          (case dct (nat n_filters) (map (map np_log) feat0) of
             Inl e \<Rightarrow> Inl e
           | Inr cep \<Rightarrow>
               (let feat1 = lifter (map (py_take n_cepstra) cep) lift
                in if energy \<and> py_take n_cepstra [0..<nat n_filters] = [] then Inl IndexError
                   else (let feat = (if energy
                                     then map2 (\<lambda>row e. row[0 := np_log e]) feat1 energy_
                                     else feat1)
                         in np_hstack
                              (feat # derivs derivative deriv_spread feat (nat n_derivatives))))))"

subsection \<open>The range of float64\<close>












subsection \<open>Notions of the specification\<close>



text \<open>
  The weight that the two loops of \<open>get_filterbanks\<close> leave at bin \<open>i\<close> of a filter with
  control bins \<open>b0\<close>, \<open>b1\<close>, \<open>b2\<close> when no index wraps around.
\<close>

definition filter_weight :: "int \<Rightarrow> int \<Rightarrow> int \<Rightarrow> int \<Rightarrow> real" where
  "filter_weight b0 b1 b2 i =
     (if b1 \<le> i \<and> i < b2 then (of_int b2 - of_int i) / (of_int b2 - of_int b1)
      else if b0 \<le> i \<and> i < b1 then (of_int i - of_int b0) / (of_int b1 - of_int b0)
      else 0)"

text \<open>
  Two matrices of the same shape: as many rows, and row by row as many columns. The spec
  asks of \<^verbatim>\<open>derivative\<close> that it return a matrix of the shape of its argument.
\<close>

definition same_shape :: "'a list list \<Rightarrow> 'a list list \<Rightarrow> bool" where
  "same_shape A B = (map length A = map length B)"

section \<open>Framing\<close>

subsection \<open>Index arrays that stay in range\<close>

lemma np_indices_nat:
  "\<forall>i\<in>set idx. 0 \<le> i \<and> i < int n \<Longrightarrow> np_indices n idx = Inr (map nat idx)"
  by (induction idx) (auto simp: np_index_def)

lemma np_take_nat:
  "\<forall>i\<in>set idx. 0 \<le> i \<and> i < int (length a) \<Longrightarrow>
   np_take a idx = Inr (map (\<lambda>i. a ! nat i) idx)"
  by (simp add: np_take_def np_indices_nat comp_def)

lemma np_take_rows_nat:
  "\<forall>idx\<in>set rows. \<forall>i\<in>set idx. 0 \<le> i \<and> i < int (length a) \<Longrightarrow>
   np_take_rows a rows = Inr (map (\<lambda>idx. map (\<lambda>i. a ! nat i) idx) rows)"
  by (induction rows) (simp_all add: np_take_nat)

lemma ceiling_times_ge:
  fixes a b :: int
  assumes "0 < b"
  shows "a \<le> \<lceil>real_of_int a / real_of_int b\<rceil> * b"
proof -
  have "real_of_int a / real_of_int b \<le> of_int \<lceil>real_of_int a / real_of_int b\<rceil>"
    by (rule le_of_int_ceiling)
  from mult_right_mono[OF this, of "real_of_int b"]
  have "real_of_int a \<le> of_int \<lceil>real_of_int a / real_of_int b\<rceil> * real_of_int b"
    using assms by simp
  then show ?thesis
    by (metis of_int_le_iff of_int_mult)
qed

lemma map2_upt_nth:
  "length w = n \<Longrightarrow> map2 (*) (map f [0..<n]) w = map (\<lambda>j. f j * (w ! j :: real)) [0..<n]"
  by (rule nth_equalityI) simp_all

lemma numframes_pos:
  assumes "1 \<le> st" "numframes slen fl st = Inr nf"
  shows "1 \<le> nf"
proof (cases "slen \<le> fl")
  case True
  then show ?thesis using assms by (simp add: numframes_def)
next
  case False
  define c where "c = \<lceil>(real_of_int slen - real_of_int fl) / real_of_int st\<rceil>"
  have "0 < (real_of_int slen - real_of_int fl) / real_of_int st"
    using False assms(1) by simp
  then have "0 < c" unfolding c_def by (simp only: zero_less_ceiling)
  moreover have "nf = 1 + c" using assms False by (simp add: numframes_def c_def)
  ultimately show ?thesis by simp
qed

lemma numframes_covers:
  assumes "1 \<le> st" "numframes slen fl st = Inr nf"
  shows "slen \<le> (nf - 1) * st + fl"
proof (cases "slen \<le> fl")
  case True
  then show ?thesis using assms by (simp add: numframes_def)
next
  case False
  define c where "c = \<lceil>(real_of_int slen - real_of_int fl) / real_of_int st\<rceil>"
  have "slen - fl \<le> \<lceil>real_of_int (slen - fl) / real_of_int st\<rceil> * st"
    using assms(1) by (intro ceiling_times_ge) simp
  then have "slen - fl \<le> c * st" by (simp add: c_def)
  moreover have "nf = 1 + c" using assms False by (simp add: numframes_def c_def)
  ultimately show ?thesis by simp
qed

lemma frame_index_bound:
  fixes st fl nf :: int
  assumes "1 \<le> st" "i < nat nf" "j < nat fl"
  shows "int j + int i * st < (nf - 1) * st + fl"
proof -
  have "int i \<le> nf - 1" using assms by linarith
  then have "int i * st \<le> (nf - 1) * st"
    using assms(1) by (intro mult_right_mono) simp_all
  moreover have "int j < fl" using assms by linarith
  ultimately show ?thesis by linarith
qed

lemma framesig_result:
  assumes fl: "0 \<le> py_round frame_len" and st: "1 \<le> py_round frame_step"
    and win: "length (winfunc (py_round frame_len)) = nat (py_round frame_len)"
    and nf: "numframes (int (length sig)) (py_round frame_len) (py_round frame_step) = Inr nf"
  shows "framesig sig frame_len frame_step winfunc =
     Inr (map (\<lambda>i. map (\<lambda>j. padsignal sig ((nf - 1) * py_round frame_step + py_round frame_len)
                                ! (i * nat (py_round frame_step) + j)
                              * winfunc (py_round frame_len) ! j)
                   [0..<nat (py_round frame_len)])
            [0..<nat nf])"
proof -
  define fl' where "fl' = py_round frame_len"
  define st' where "st' = py_round frame_step"
  define padlen where "padlen = (nf - 1) * st' + fl'"
  define pad where "pad = padsignal sig padlen"
  have nfpos: "1 \<le> nf" using numframes_pos[OF st nf] .
  have cov: "int (length sig) \<le> padlen"
    using numframes_covers[OF st nf] by (simp add: padlen_def st'_def fl'_def)
  have lenpad: "int (length pad) = padlen"
    using cov by (simp add: pad_def padsignal_def)
  have idx: "frame_indices fl' st' nf =
      Inr (map (\<lambda>i. map (\<lambda>j. int j + int i * st') [0..<nat fl']) [0..<nat nf])"
    using fl st nfpos by (simp add: frame_indices_def fl'_def st'_def)
  have inrange: "\<forall>idx\<in>set (map (\<lambda>i. map (\<lambda>j. int j + int i * st') [0..<nat fl']) [0..<nat nf]).
      \<forall>k\<in>set idx. 0 \<le> k \<and> k < int (length pad)"
  proof (intro ballI)
    fix idx k
    assume a: "idx \<in> set (map (\<lambda>i. map (\<lambda>j. int j + int i * st') [0..<nat fl']) [0..<nat nf])"
      and b: "k \<in> set idx"
    from a obtain i where i: "i < nat nf" "idx = map (\<lambda>j. int j + int i * st') [0..<nat fl']"
      by auto
    from b i obtain j where j: "j < nat fl'" "k = int j + int i * st'" by auto
    have "k < padlen"
      using frame_index_bound[of st' i nf j fl'] st i(1) j
      by (simp add: padlen_def st'_def)
    moreover have "0 \<le> k" using j st by (simp add: st'_def)
    ultimately show "0 \<le> k \<and> k < int (length pad)" using lenpad by simp
  qed
  have rows: "np_take_rows pad (map (\<lambda>i. map (\<lambda>j. int j + int i * st') [0..<nat fl']) [0..<nat nf])
     = Inr (map (\<lambda>i. map (\<lambda>j. pad ! (i * nat st' + j)) [0..<nat fl']) [0..<nat nf])"
  proof -
    have "\<And>i j. nat (int j + int i * st') = i * nat st' + j"
      using st by (simp add: st'_def nat_add_distrib nat_mult_distrib)
    then show ?thesis
      by (simp add: np_take_rows_nat[OF inrange] comp_def)
  qed
  have "framesig sig frame_len frame_step winfunc =
      np_mul_rows (nat fl') (map (\<lambda>i. map (\<lambda>j. pad ! (i * nat st' + j)) [0..<nat fl']) [0..<nat nf])
         (winfunc fl')"
    using cov nf idx rows
    by (simp add: framesig_def Let_def fl'_def[symmetric] st'_def[symmetric]
        padlen_def[symmetric] pad_def[symmetric])
  also have "\<dots> = Inr (map (\<lambda>i. map (\<lambda>j. pad ! (i * nat st' + j) * winfunc fl' ! j) [0..<nat fl'])
       [0..<nat nf])"
    using win by (simp add: np_mul_rows_def fl'_def map2_upt_nth comp_def)
  finally show ?thesis
    by (simp add: pad_def padlen_def fl'_def st'_def)
qed

subsection \<open>The number of frames\<close>

text \<open>
  Claim C4. When the rounded frame length and frame step are at least one sample (and the
  window has the length of a frame), \<open>framesig\<close> returns exactly one frame if the signal
  is no longer than a frame and \<open>1 + ceil((len - frame_len) / frame_step)\<close> frames
  otherwise. The signal is padded with zeros on the right to exactly
  \<open>(numframes - 1) * frame_step + frame_len\<close> samples, frame \<open>i\<close> is the windowed slice of
  the padded signal that starts at \<open>i * frame_step\<close>, and a signal no longer than one frame
  gives the single frame made of the signal and its zero padding.
\<close>

theorem framesig_frame_count:
  fixes sig :: "real list" and frame_len frame_step :: real and winfunc :: "int \<Rightarrow> real list"
  defines "fl \<equiv> py_round frame_len"
    and "st \<equiv> py_round frame_step"
    and "slen \<equiv> int (length sig)"
  defines "nf \<equiv> (if slen \<le> fl then 1
                  else 1 + \<lceil>(real_of_int slen - real_of_int fl) / real_of_int st\<rceil>)"
  defines "padlen \<equiv> (nf - 1) * st + fl"
  assumes "1 \<le> py_round frame_len" and "1 \<le> py_round frame_step"
    and "length (winfunc (py_round frame_len)) = nat (py_round frame_len)"
  shows "\<exists>F. framesig sig frame_len frame_step winfunc = Inr F
           \<and> int (length F) = nf
           \<and> (\<forall>r\<in>set F. int (length r) = fl)
           \<and> padsignal sig padlen = sig @ replicate (nat (padlen - slen)) 0
           \<and> int (length (padsignal sig padlen)) = padlen
           \<and> (\<forall>i<length F. \<forall>j<nat fl.
                 F ! i ! j = padsignal sig padlen ! (i * nat st + j) * winfunc fl ! j)
           \<and> (slen \<le> fl \<longrightarrow>
                 F = [map2 (*) (sig @ replicate (nat (fl - slen)) 0) (winfunc fl)])"
proof -
  have nfeq: "numframes slen fl st = Inr nf"
    using assms(6,7) by (simp add: numframes_def nf_def fl_def st_def)
  have nfpos: "1 \<le> nf"
    using numframes_pos[OF _ nfeq] assms(7) by (simp add: st_def)
  have cov: "slen \<le> padlen"
    using numframes_covers[OF _ nfeq] assms(7) by (simp add: st_def padlen_def)
  define F where "F = map (\<lambda>i. map (\<lambda>j. padsignal sig padlen ! (i * nat st + j) * winfunc fl ! j)
                   [0..<nat fl]) [0..<nat nf]"
  have res: "framesig sig frame_len frame_step winfunc = Inr F"
    using framesig_result[of frame_len frame_step winfunc sig nf] assms(6,7,8) nfeq
    by (simp add: F_def fl_def st_def slen_def padlen_def)
  have len: "int (length F) = nf" using nfpos by (simp add: F_def)
  have rows: "\<forall>r\<in>set F. int (length r) = fl"
    using assms(6) by (auto simp: F_def fl_def)
  have pad: "padsignal sig padlen = sig @ replicate (nat (padlen - slen)) 0"
    by (simp add: padsignal_def slen_def)
  have padl: "int (length (padsignal sig padlen)) = padlen"
    using cov by (simp add: padsignal_def slen_def)
  have nth: "\<forall>i<length F. \<forall>j<nat fl.
      F ! i ! j = padsignal sig padlen ! (i * nat st + j) * winfunc fl ! j"
    by (simp add: F_def)
  have short: "slen \<le> fl \<longrightarrow>
      F = [map2 (*) (sig @ replicate (nat (fl - slen)) 0) (winfunc fl)]"
  proof
    assume le: "slen \<le> fl"
    then have nf1: "nf = 1" by (simp add: nf_def)
    then have pl: "padlen = fl" by (simp add: padlen_def)
    have lp: "length (padsignal sig fl) = nat fl"
      using le by (simp add: padsignal_def slen_def)
    have "map (\<lambda>j. padsignal sig fl ! j * winfunc fl ! j) [0..<nat fl]
        = map2 (*) (padsignal sig fl) (winfunc fl)"
      using lp assms(8) by (intro nth_equalityI) (simp_all add: fl_def)
    then show "F = [map2 (*) (sig @ replicate (nat (fl - slen)) 0) (winfunc fl)]"
      by (simp add: F_def nf1 pl padsignal_def slen_def)
  qed
  from res len rows pad padl nth short show ?thesis by blast
qed

theorem framesig_frame_count_witness:
  "1 \<le> py_round 3 \<and> 1 \<le> py_round 2 \<and> length (np_ones (py_round 3)) = nat (py_round 3)
   \<and> (\<exists>F. framesig [1, 2, 3, 4, 5, 6] 3 2 np_ones = Inr F \<and> int (length F) = 3
           \<and> padsignal [1, 2, 3, 4, 5, 6] 7 = [1, 2, 3, 4, 5, 6, 0])
   \<and> (\<exists>F. framesig [1, 2] 3 2 np_ones = Inr F \<and> F = [[1, 2, 0]])"
proof -
  have r3: "py_round 3 = 3" and r2: "py_round 2 = 2"
    by (simp_all add: py_round_def)
  have c: "\<lceil>(3::real) / 2\<rceil> = 2" by simp
  have one: "np_ones 3 = [1, 1, 1]" by (simp add: np_ones_def numeral_3_eq_3)
  show ?thesis
    using framesig_frame_count[of 3 2 np_ones "[1, 2, 3, 4, 5, 6]"]
      framesig_frame_count[of 3 2 np_ones "[1, 2]"]
    by (simp add: r3 r2 c one numeral_3_eq_3) blast
qed

section \<open>The Mel filterbank\<close>

subsection \<open>One row of the matrix\<close>

lemma set_py_range: "set (py_range a b) = {a..<b}"
proof -
  have "\<And>x. a \<le> x \<Longrightarrow> x < b \<Longrightarrow> x \<in> (\<lambda>k. a + int k) ` {0..<nat (b - a)}"
  proof -
    fix x assume "a \<le> x" "x < b"
    then have "x = a + int (nat (x - a))" "nat (x - a) \<in> {0..<nat (b - a)}" by auto
    then show "x \<in> (\<lambda>k. a + int k) ` {0..<nat (b - a)}" by blast
  qed
  then show ?thesis by (auto simp: py_range_def)
qed

lemma set_range_nth:
  "\<forall>i\<in>set idx. 0 \<le> i \<and> i < int (length row) \<Longrightarrow>
   \<exists>row'. set_range row idx f = Inr row' \<and> length row' = length row \<and>
     (\<forall>k<length row. row' ! k = (if int k \<in> set idx then f (int k) else row ! k))"
proof (induction idx arbitrary: row)
  case Nil
  then show ?case by simp
next
  case (Cons i idx)
  have i: "0 \<le> i" "i < int (length row)" using Cons.prems by simp_all
  then have ix: "np_index (length row) i = Inr (nat i)" by (simp add: np_index_def)
  have "\<forall>j\<in>set idx. 0 \<le> j \<and> j < int (length (row[nat i := f i]))"
    using Cons.prems by simp
  from Cons.IH[OF this] obtain row' where r:
    "set_range (row[nat i := f i]) idx f = Inr row'" "length row' = length row"
    "\<forall>k<length row. row' ! k = (if int k \<in> set idx then f (int k) else row[nat i := f i] ! k)"
    by auto
  have "\<forall>k<length row. row' ! k = (if int k \<in> set (i # idx) then f (int k) else row ! k)"
  proof (intro allI impI)
    fix k assume k: "k < length row"
    show "row' ! k = (if int k \<in> set (i # idx) then f (int k) else row ! k)"
    proof (cases "int k = i")
      case True
      then have "nat i = k" by simp
      then show ?thesis using r(3) k True by (simp add: nth_list_update)
    next
      case False
      then have "nat i \<noteq> k" using i by auto
      then show ?thesis using r(3) k False by (simp add: nth_list_update)
    qed
  qed
  then show ?case using ix r(1,2) by simp
qed

lemma filter_row_weights:
  assumes "0 \<le> b0" "0 \<le> b1" "b1 \<le> int ncols" "b2 \<le> int ncols"
  shows "filter_row ncols b0 b1 b2 = Inr (map (\<lambda>i. filter_weight b0 b1 b2 (int i)) [0..<ncols])"
proof -
  let ?f1 = "\<lambda>i. (real_of_int i - of_int b0) / (of_int b1 - of_int b0)"
  let ?f2 = "\<lambda>i. (real_of_int b2 - of_int i) / (of_int b2 - of_int b1)"
  have "\<forall>i\<in>set (py_range b0 b1). 0 \<le> i \<and> i < int (length (replicate ncols (0::real)))"
    using assms by (auto simp: set_py_range)
  from set_range_nth[OF this, of ?f1] obtain r1 where r1:
    "set_range (replicate ncols 0) (py_range b0 b1) ?f1 = Inr r1" "length r1 = ncols"
    "\<forall>k<ncols. r1 ! k = (if int k \<in> set (py_range b0 b1) then ?f1 (int k) else 0)"
    by auto
  have "\<forall>i\<in>set (py_range b1 b2). 0 \<le> i \<and> i < int (length r1)"
    using assms r1(2) by (auto simp: set_py_range)
  from set_range_nth[OF this, of ?f2] obtain r2 where r2:
    "set_range r1 (py_range b1 b2) ?f2 = Inr r2" "length r2 = ncols"
    "\<forall>k<ncols. r2 ! k = (if int k \<in> set (py_range b1 b2) then ?f2 (int k) else r1 ! k)"
    using r1(2) by auto
  have "r2 = map (\<lambda>i. filter_weight b0 b1 b2 (int i)) [0..<ncols]"
    using r1(3) r2(2,3) by (intro nth_equalityI) (auto simp: set_py_range filter_weight_def)
  then show ?thesis using r1(1) r2(1) by (simp add: filter_row_def)
qed

lemma set_range_length:
  "set_range row idx f = Inr row' \<Longrightarrow> length row' = length row"
  by (induction idx arbitrary: row) (auto split: sum.splits)

lemma set_range_in_range:
  "set_range row idx f = Inr row' \<Longrightarrow> i \<in> set idx \<Longrightarrow> - int (length row) \<le> i \<and> i < int (length row)"
proof (induction idx arbitrary: row)
  case Nil
  then show ?case by simp
next
  case (Cons a idx)
  from Cons.prems(1) obtain p where p: "np_index (length row) a = Inr p"
    "set_range (row[p := f a]) idx f = Inr row'"
    by (auto split: sum.splits)
  show ?case
  proof (cases "i = a")
    case True
    then show ?thesis using p(1) by (auto simp: np_index_def split: if_splits)
  next
    case False
    then have "i \<in> set idx" using Cons.prems(2) by simp
    from Cons.IH[OF p(2) this] show ?thesis by simp
  qed
qed

lemma filter_row_length:
  "filter_row ncols b0 b1 b2 = Inr row \<Longrightarrow> length row = ncols"
  by (auto simp: filter_row_def split: sum.splits dest!: set_range_length)

lemma filter_row_upper:
  assumes "filter_row ncols b0 b1 b2 = Inr row" "0 \<le> b1" "b1 < b2"
  shows "b2 \<le> int ncols"
proof -
  from assms(1) obtain r1 where r1:
    "set_range (replicate ncols 0) (py_range b0 b1)
       (\<lambda>i. (real_of_int i - of_int b0) / (of_int b1 - of_int b0)) = Inr r1"
    "set_range r1 (py_range b1 b2)
       (\<lambda>i. (real_of_int b2 - of_int i) / (of_int b2 - of_int b1)) = Inr row"
    by (auto simp: filter_row_def split: sum.splits)
  have "length r1 = ncols" using set_range_length[OF r1(1)] by simp
  moreover have "b2 - 1 \<in> set (py_range b1 b2)" using assms(3) by (simp add: set_py_range)
  ultimately show ?thesis using set_range_in_range[OF r1(2)] by fastforce
qed

lemma collect_map_Inr:
  "collect (map f xs) = Inr ys \<Longrightarrow>
   length ys = length xs \<and> (\<forall>i<length xs. f (xs ! i) = Inr (ys ! i))"
proof (induction xs arbitrary: ys)
  case Nil
  then show ?case by simp
next
  case (Cons x xs)
  from Cons.prems obtain y ys' where y: "f x = Inr y" "collect (map f xs) = Inr ys'" "ys = y # ys'"
    by (auto split: sum.splits)
  from Cons.IH[OF y(2)] y(1,3) show ?case
    by (auto simp: nth_Cons split: nat.splits)
qed

lemma collect_map_total:
  "\<forall>x\<in>set xs. f x = Inr (g x) \<Longrightarrow> collect (map f xs) = Inr (map g xs)"
  by (induction xs) simp_all

subsection \<open>The control bins stay inside the matrix\<close>

lemma mel2hz_hz2mel: "- 700 < hz \<Longrightarrow> mel2hz (hz2mel hz) = hz"
proof -
  assume "- 700 < hz"
  then have "0 < 1 + hz / 700" by simp
  then have "10 powr (log 10 (1 + hz / 700)) = 1 + hz / 700" by simp
  then show ?thesis by (simp add: mel2hz_def hz2mel_def)
qed

lemma mel2hz_mono: "a \<le> b \<Longrightarrow> mel2hz a \<le> mel2hz b"
  by (simp add: mel2hz_def)

lemma hz2mel_mono: "- 700 < a \<Longrightarrow> a \<le> b \<Longrightarrow> hz2mel a \<le> hz2mel b"
  by (simp add: hz2mel_def)

lemma linspace_nth:
  "k < num \<Longrightarrow> linspace start stop num ! k = start + real k * ((stop - start) / real (num - 1))"
  by (simp add: linspace_def)

lemma linspace_between:
  assumes "start \<le> stop" "k < num"
  shows "start \<le> linspace start stop num ! k \<and> linspace start stop num ! k \<le> stop"
proof -
  define q where "q = real k / real (num - 1)"
  define p where "p = q * (stop - start)"
  have k: "real k \<le> real (num - 1)" using assms(2) by simp
  have d: "0 \<le> stop - start" using assms(1) by simp
  have q0: "0 \<le> q" by (simp add: q_def)
  have q1: "q \<le> 1"
    using k by (cases "num - 1 = 0") (simp_all add: q_def divide_le_eq_1)
  have eq: "real k * ((stop - start) / real (num - 1)) = p"
    by (simp add: q_def p_def)
  have p0: "0 \<le> p" using q0 d by (simp add: p_def)
  have "q * (stop - start) \<le> 1 * (stop - start)"
    using q1 d by (rule mult_right_mono)
  then have p1: "p \<le> stop - start" by (simp add: p_def)
  have "linspace start stop num ! k = start + p"
    unfolding linspace_nth[OF assms(2)] eq ..
  then show ?thesis using p0 p1 by linarith
qed

lemma fbin_length: "length (fbin n_filters n_fft fs minfreq maxfreq) = nat (n_filters + 2)"
  by (simp add: fbin_def linspace_def)

lemma fbin_in_range:
  assumes fs: "0 < fs" and lo: "0 \<le> minfreq" and le: "minfreq \<le> maxfreq"
    and hi: "maxfreq \<le> of_int \<lfloor>fs / 2\<rfloor>" and nfft: "0 \<le> n_fft"
    and k: "k < nat (n_filters + 2)"
  shows "0 \<le> fbin n_filters n_fft fs minfreq maxfreq ! k
       \<and> fbin n_filters n_fft fs minfreq maxfreq ! k \<le> n_fft div 2 + 1"
proof -
  define m where "m = linspace (hz2mel minfreq) (hz2mel maxfreq) (nat (n_filters + 2)) ! k"
  have b: "fbin n_filters n_fft fs minfreq maxfreq ! k = \<lfloor>real_of_int (n_fft + 1) * mel2hz m / fs\<rfloor>"
    using k by (simp add: fbin_def m_def linspace_def)
  have "hz2mel minfreq \<le> hz2mel maxfreq" using lo le by (intro hz2mel_mono) simp_all
  from linspace_between[OF this k] have "hz2mel minfreq \<le> m" "m \<le> hz2mel maxfreq"
    by (simp_all add: m_def)
  then have "mel2hz (hz2mel minfreq) \<le> mel2hz m" "mel2hz m \<le> mel2hz (hz2mel maxfreq)"
    by (simp_all add: mel2hz_mono)
  then have f: "minfreq \<le> mel2hz m" "mel2hz m \<le> maxfreq"
    using lo le by (simp_all add: mel2hz_hz2mel)
  have half: "maxfreq \<le> fs / 2" using hi of_int_floor_le[of "fs / 2"] by linarith
  have n1: "0 < real_of_int (n_fft + 1)" using nfft by simp
  have "0 \<le> real_of_int (n_fft + 1) * mel2hz m / fs"
    using f(1) lo fs n1 by simp
  then have lower: "0 \<le> \<lfloor>real_of_int (n_fft + 1) * mel2hz m / fs\<rfloor>" by simp
  have "mel2hz m / fs \<le> 1 / 2" using f(2) half fs by (simp add: divide_le_eq)
  then have "real_of_int (n_fft + 1) * (mel2hz m / fs) \<le> real_of_int (n_fft + 1) * (1 / 2)"
    using n1 by (intro mult_left_mono) simp_all
  then have "real_of_int (n_fft + 1) * mel2hz m / fs \<le> real_of_int (n_fft + 1) / 2" by simp
  then have "\<lfloor>real_of_int (n_fft + 1) * mel2hz m / fs\<rfloor> \<le> \<lfloor>real_of_int (n_fft + 1) / 2\<rfloor>"
    by (rule floor_mono)
  also have "\<dots> = (n_fft + 1) div 2"
    by (metis floor_divide_of_int_eq of_int_numeral)
  also have "\<dots> \<le> n_fft div 2 + 1" by linarith
  finally show ?thesis using lower b by simp
qed

lemma get_filterbanks_total:
  assumes fs: "0 < fs" and lo: "0 \<le> minfreq" and le: "minfreq \<le> maxfreq"
    and hi: "maxfreq \<le> of_int \<lfloor>fs / 2\<rfloor>" and nfft: "0 \<le> n_fft" and nfil: "0 \<le> n_filters"
  shows "get_filterbanks n_filters n_fft fs minfreq (Some maxfreq) =
     Inr (map (\<lambda>j. map (\<lambda>i. filter_weight (fbin n_filters n_fft fs minfreq maxfreq ! j)
                                (fbin n_filters n_fft fs minfreq maxfreq ! (j + 1))
                                (fbin n_filters n_fft fs minfreq maxfreq ! (j + 2)) (int i))
                      [0..<nat (n_fft div 2 + 1)])
            [0..<nat n_filters])"
proof -
  define bins where "bins = fbin n_filters n_fft fs minfreq maxfreq"
  define ncols where "ncols = n_fft div 2 + 1"
  have nc: "0 \<le> ncols" using nfft by (simp add: ncols_def)
  have rng: "\<And>k. k < nat (n_filters + 2) \<Longrightarrow> 0 \<le> bins ! k \<and> bins ! k \<le> ncols"
    unfolding bins_def ncols_def using fbin_in_range[OF fs lo le hi nfft] by blast
  have rows: "\<forall>j\<in>set [0..<nat n_filters].
      filter_row (nat ncols) (bins ! j) (bins ! (j + 1)) (bins ! (j + 2))
      = Inr (map (\<lambda>i. filter_weight (bins ! j) (bins ! (j + 1)) (bins ! (j + 2)) (int i))
               [0..<nat ncols])"
  proof
    fix j assume "j \<in> set [0..<nat n_filters]"
    then have j: "j < nat (n_filters + 2)" "j + 1 < nat (n_filters + 2)" "j + 2 < nat (n_filters + 2)"
      using nfil by auto
    show "filter_row (nat ncols) (bins ! j) (bins ! (j + 1)) (bins ! (j + 2))
      = Inr (map (\<lambda>i. filter_weight (bins ! j) (bins ! (j + 1)) (bins ! (j + 2)) (int i))
               [0..<nat ncols])"
      using rng[OF j(1)] rng[OF j(2)] rng[OF j(3)] nc
      by (intro filter_row_weights) simp_all
  qed
  show ?thesis
  proof (cases "n_filters = 0")
    case True
    then show ?thesis using hi nc by (simp add: get_filterbanks_def ncols_def)
  next
    case False
    then show ?thesis
      using hi nc nfil lo le fs collect_map_total[OF rows]
      by (simp add: get_filterbanks_def Let_def ncols_def[symmetric] bins_def[symmetric])
  qed
qed

subsection \<open>Control bins of concrete configurations\<close>

lemma powr_log_half: "0 < b \<Longrightarrow> 10 powr (log 10 b / 2) = sqrt b"
proof -
  assume b: "0 < b"
  have "10 powr (log 10 b / 2) = (10 powr log 10 b) powr (1 / 2)"
    by (simp add: powr_powr)
  also have "\<dots> = b powr (1 / 2)" using b by simp
  also have "\<dots> = sqrt b" using b by (simp add: powr_half_sqrt)
  finally show ?thesis .
qed

lemma fbin_single:
  assumes "0 \<le> maxfreq"
  shows "fbin 1 n_fft fs 0 maxfreq =
     [0, \<lfloor>real_of_int (n_fft + 1) * (700 * (sqrt (1 + maxfreq / 700) - 1)) / fs\<rfloor>,
      \<lfloor>real_of_int (n_fft + 1) * maxfreq / fs\<rfloor>]"
proof -
  define h where "h = hz2mel maxfreq"
  have three: "[0..<3] = [0, 1, 2]"
    by (simp add: upt_rec)
  have z: "hz2mel 0 = 0" by (simp add: hz2mel_def)
  have m0: "mel2hz 0 = 0" by (simp add: mel2hz_def)
  have "mel2hz (h / 2) = 700 * (10 powr (log 10 (1 + maxfreq / 700) / 2) - 1)"
    by (simp add: mel2hz_def h_def hz2mel_def)
  then have m1: "mel2hz (h / 2) = 700 * (sqrt (1 + maxfreq / 700) - 1)"
    using assms by (simp add: powr_log_half)
  have m2: "mel2hz h = maxfreq"
    unfolding h_def using assms by (intro mel2hz_hz2mel) simp
  have lin: "linspace (hz2mel 0) (hz2mel maxfreq) (nat (1 + 2)) = [0, h / 2, h]"
    by (simp add: linspace_def three z h_def)
  have "fbin 1 n_fft fs 0 maxfreq =
      [\<lfloor>real_of_int (n_fft + 1) * mel2hz 0 / fs\<rfloor>,
       \<lfloor>real_of_int (n_fft + 1) * mel2hz (h / 2) / fs\<rfloor>,
       \<lfloor>real_of_int (n_fft + 1) * mel2hz h / fs\<rfloor>]"
    unfolding fbin_def lin by simp
  also have "\<dots> = [0, \<lfloor>real_of_int (n_fft + 1) * (700 * (sqrt (1 + maxfreq / 700) - 1)) / fs\<rfloor>,
      \<lfloor>real_of_int (n_fft + 1) * maxfreq / fs\<rfloor>]"
    unfolding m0 m1 m2 by simp
  finally show ?thesis .
qed

lemma sqrt_87_7: "7 / 2 \<le> sqrt (87 / 7)" "sqrt (87 / 7) < 353 / 100"
proof -
  show "7 / 2 \<le> sqrt (87 / 7)"
    by (rule real_le_rsqrt) (simp add: power2_eq_square)
  show "sqrt (87 / 7) < 353 / 100"
    by (rule real_less_lsqrt) (simp_all add: power2_eq_square)
qed

lemma fbin_512: "fbin 1 512 16000 0 8000 = [0, 56, 256]"
proof -
  define s where "s = sqrt (87 / 7)"
  have s: "7 / 2 \<le> s" "s < 353 / 100" using sqrt_87_7 by (simp_all add: s_def)
  have "\<lfloor>513 * (700 * (s - 1)) / 16000\<rfloor> = 56"
    using s by (intro floor_unique) simp_all
  moreover have "\<lfloor>(513 * 8000 / 16000 :: real)\<rfloor> = 256"
    by (intro floor_unique) simp_all
  ultimately show ?thesis
    by (simp add: fbin_single s_def)
qed

lemma fbin_8: "fbin 1 8 16000 0 8000 = [0, 0, 4]"
proof -
  define s where "s = sqrt (87 / 7)"
  have s: "7 / 2 \<le> s" "s < 353 / 100" using sqrt_87_7 by (simp_all add: s_def)
  have "\<lfloor>9 * (700 * (s - 1)) / 16000\<rfloor> = 0"
    using s by (intro floor_unique) simp_all
  moreover have "\<lfloor>(9 * 8000 / 16000 :: real)\<rfloor> = 4"
    by (intro floor_unique) simp_all
  ultimately show ?thesis
    by (simp add: fbin_single s_def)
qed

lemma floor_half_16000: "\<lfloor>(16000 :: real) / 2\<rfloor> = 8000"
  by (intro floor_unique) simp_all

lemma powr_log_mean:
  assumes "0 < a" "0 < b"
  shows "10 powr ((log 10 a + log 10 b) / 2) = sqrt (a * b)"
proof -
  have "log 10 a + log 10 b = log 10 (a * b)" using assms by (simp add: log_mult)
  moreover have "0 < a * b" using assms by simp
  ultimately show ?thesis by (simp only: powr_log_half)
qed

lemma sqrt_87_49: "1 \<le> sqrt (87 / 49)" "sqrt (87 / 49) < 3 / 2"
proof -
  show "1 \<le> sqrt (87 / 49)" by simp
  show "sqrt (87 / 49) < 3 / 2"
    by (rule real_less_lsqrt) (simp_all add: power2_eq_square)
qed

lemma fbin_wrap: "fbin 1 32 16000 (- 600) 8000 = [- 2, 0, 16]"
proof -
  define l where "l = hz2mel (- 600)"
  define h where "h = hz2mel 8000"
  define s where "s = sqrt (87 / 49)"
  have three: "[0..<3] = [0, 1, 2]" by (simp add: upt_rec)
  have lin: "linspace l h (nat (1 + 2)) = [l, (l + h) / 2, h]"
    by (simp add: linspace_def three field_simps)
  have m0: "mel2hz l = - 600" unfolding l_def by (intro mel2hz_hz2mel) simp
  have m2: "mel2hz h = 8000" unfolding h_def by (intro mel2hz_hz2mel) simp
  have "(l + h) / 2 / 2595 = (log 10 (1 / 7) + log 10 (87 / 7)) / 2"
    by (simp add: l_def h_def hz2mel_def field_simps)
  then have "mel2hz ((l + h) / 2) = 700 * (10 powr ((log 10 (1 / 7) + log 10 (87 / 7)) / 2) - 1)"
    by (simp only: mel2hz_def)
  also have "10 powr ((log 10 (1 / 7) + log 10 (87 / 7)) / 2) = sqrt (1 / 7 * (87 / 7))"
    by (rule powr_log_mean) simp_all
  finally have m1: "mel2hz ((l + h) / 2) = 700 * (s - 1)" by (simp add: s_def)
  have sb: "1 \<le> s" "s < 3 / 2" using sqrt_87_49 by (simp_all add: s_def)
  have b0: "\<lfloor>real_of_int (32 + 1) * (- 600) / 16000\<rfloor> = - 2"
    by (intro floor_unique) simp_all
  have b1: "\<lfloor>real_of_int (32 + 1) * (700 * (s - 1)) / 16000\<rfloor> = 0"
    using sb by (intro floor_unique) simp_all
  have b2: "\<lfloor>real_of_int (32 + 1) * 8000 / (16000 :: real)\<rfloor> = 16"
    by (intro floor_unique) simp_all
  have "fbin 1 32 16000 (- 600) 8000 =
      [\<lfloor>real_of_int (32 + 1) * mel2hz l / 16000\<rfloor>,
       \<lfloor>real_of_int (32 + 1) * mel2hz ((l + h) / 2) / 16000\<rfloor>,
       \<lfloor>real_of_int (32 + 1) * mel2hz h / 16000\<rfloor>]"
    unfolding fbin_def l_def[symmetric] h_def[symmetric] lin by simp
  then show ?thesis unfolding m0 m1 m2 b0 b1 b2 .
qed

subsection \<open>The Nyquist assertion\<close>

text \<open>
  Claim C7. A highest band edge strictly above half the sample rate is rejected: the
  assertion at the head of \<open>get_filterbanks\<close> fails, whatever the other arguments are,
  so no filter weight is computed. In particular \<open>maxfreq = fs\<close> is rejected for a positive
  sample rate.
\<close>

theorem get_filterbanks_nyquist:
  "(fs / 2 < maxfreq \<longrightarrow>
      get_filterbanks n_filters n_fft fs minfreq (Some maxfreq) = Inl AssertionError)
   \<and> (0 < fs \<longrightarrow>
      get_filterbanks n_filters n_fft fs minfreq (Some fs) = Inl AssertionError)"
proof -
  have gen: "get_filterbanks n_filters n_fft fs minfreq (Some m) = Inl AssertionError"
    if "fs / 2 < m" for m
  proof -
    have "of_int \<lfloor>fs / 2\<rfloor> \<le> fs / 2" by (rule of_int_floor_le)
    then have "\<not> m \<le> of_int \<lfloor>fs / 2\<rfloor>" using that by linarith
    then show ?thesis by (simp add: get_filterbanks_def Let_def)
  qed
  have "fs / 2 < fs" if "0 < fs" using that by simp
  then show ?thesis using gen by blast
qed

theorem get_filterbanks_nyquist_witness:
  "(16000 :: real) / 2 < 12000 \<and> (0 :: real) < 16000
   \<and> get_filterbanks 26 512 16000 0 (Some 12000) = Inl AssertionError
   \<and> get_filterbanks 26 512 16000 0 (Some 16000) = Inl AssertionError"
  using get_filterbanks_nyquist[of 16000 12000 26 512 0] by simp

subsection \<open>Triangular filters\<close>

lemma get_filterbanks_row:
  assumes ok: "get_filterbanks n_filters n_fft fs minfreq maxfreq_arg = Inr fb"
    and j: "j < length fb"
  shows "length fb = nat n_filters
    \<and> filter_row (nat (n_fft div 2 + 1))
         (fbin n_filters n_fft fs minfreq
            (case maxfreq_arg of None \<Rightarrow> of_int \<lfloor>fs / 2\<rfloor> | Some m \<Rightarrow> m) ! j)
         (fbin n_filters n_fft fs minfreq
            (case maxfreq_arg of None \<Rightarrow> of_int \<lfloor>fs / 2\<rfloor> | Some m \<Rightarrow> m) ! (j + 1))
         (fbin n_filters n_fft fs minfreq
            (case maxfreq_arg of None \<Rightarrow> of_int \<lfloor>fs / 2\<rfloor> | Some m \<Rightarrow> m) ! (j + 2))
       = Inr (fb ! j)"
proof -
  define bins where "bins = fbin n_filters n_fft fs minfreq
            (case maxfreq_arg of None \<Rightarrow> of_int \<lfloor>fs / 2\<rfloor> | Some m \<Rightarrow> m)"
  have ne: "fb \<noteq> []" using j by auto
  have "collect (map (\<lambda>j. filter_row (nat (n_fft div 2 + 1)) (bins ! j) (bins ! (j + 1))
                                  (bins ! (j + 2))) [0..<nat n_filters]) = Inr fb"
    using ok ne unfolding get_filterbanks_def Let_def bins_def[symmetric]
    by (simp split: if_splits)
  from collect_map_Inr[OF this] j show ?thesis
    unfolding bins_def[symmetric] by simp
qed

lemma filter_weight_rise:
  assumes "b0 < b1" "b1 < b2" "b0 \<le> i" "i \<le> b1"
  shows "filter_weight b0 b1 b2 i = (of_int i - of_int b0) / (of_int b1 - of_int b0)"
  using assms by (auto simp: filter_weight_def)

lemma filter_weight_fall:
  assumes "b0 < b1" "b1 < b2" "b1 \<le> i" "i \<le> b2"
  shows "filter_weight b0 b1 b2 i = (of_int b2 - of_int i) / (of_int b2 - of_int b1)"
  using assms by (auto simp: filter_weight_def)

lemma filter_weight_outside:
  assumes "i \<le> b0 \<or> b2 \<le> i" "b0 < b1" "b1 < b2"
  shows "filter_weight b0 b1 b2 i = 0"
  using assms by (auto simp: filter_weight_def)

lemma filter_weight_unit:
  "0 \<le> filter_weight b0 b1 b2 i \<and> filter_weight b0 b1 b2 i \<le> 1"
  by (auto simp: filter_weight_def divide_le_eq_1)

lemma filter_weight_rising:
  assumes "b0 < b1" "b1 < b2" "b0 \<le> i" "i \<le> i'" "i' \<le> b1"
  shows "filter_weight b0 b1 b2 i \<le> filter_weight b0 b1 b2 i'"
proof -
  have "filter_weight b0 b1 b2 i = (of_int i - of_int b0) / (of_int b1 - of_int b0)"
       "filter_weight b0 b1 b2 i' = (of_int i' - of_int b0) / (of_int b1 - of_int b0)"
    using assms by (simp_all add: filter_weight_rise)
  then show ?thesis using assms by (simp add: divide_right_mono)
qed

lemma filter_weight_falling:
  assumes "b0 < b1" "b1 < b2" "b1 \<le> i" "i \<le> i'" "i' \<le> b2"
  shows "filter_weight b0 b1 b2 i' \<le> filter_weight b0 b1 b2 i"
proof -
  have "filter_weight b0 b1 b2 i = (of_int b2 - of_int i) / (of_int b2 - of_int b1)"
       "filter_weight b0 b1 b2 i' = (of_int b2 - of_int i') / (of_int b2 - of_int b1)"
    using assms by (simp_all add: filter_weight_fall)
  then show ?thesis using assms by (simp add: divide_right_mono)
qed

lemma filter_row_wrap:
  "filter_row 17 (- 2) 0 16 =
     Inr [1, 15 / 16, 7 / 8, 13 / 16, 3 / 4, 11 / 16, 5 / 8, 9 / 16, 1 / 2, 7 / 16, 3 / 8,
          5 / 16, 1 / 4, 3 / 16, 1 / 8, 1 / 16, 1 / 2]"
  by (simp add: filter_row_def py_range_def np_index_def upt_rec eval_nat_numeral)

lemma get_filterbanks_wrap:
  "get_filterbanks 1 32 16000 (- 600) (Some 8000) =
     Inr [[1, 15 / 16, 7 / 8, 13 / 16, 3 / 4, 11 / 16, 5 / 8, 9 / 16, 1 / 2, 7 / 16, 3 / 8,
           5 / 16, 1 / 4, 3 / 16, 1 / 8, 1 / 16, 1 / 2]]"
proof -
  have "get_filterbanks 1 32 16000 (- 600) (Some 8000) = collect [filter_row 17 (- 2) 0 16]"
    by (simp add: get_filterbanks_def Let_def floor_half_16000 fbin_wrap)
  then show ?thesis by (simp add: filter_row_wrap)
qed

text \<open>
  Claim C6 asks of every accepted configuration that a row with control bins
  \<open>b0 < b1 < b2\<close> be a triangle over these bins. That fails when a control bin is negative: \<open>get_filterbanks\<close> has no lower bound on
  \<open>minfreq\<close>, and a negative index into the row counts from its end. With one filter,
  \<open>n_fft = 32\<close>, \<open>fs = 16000\<close>, \<open>minfreq = -600\<close> and \<open>maxfreq = 8000\<close> the control bins are
  \<open>-2, 0, 16\<close>; the rising loop writes its two weights 0 and 1/2 at the columns 15 and 16,
  and the falling loop then runs over the columns 0 to 15. The row is not zero at bin
  \<open>b2 = 16\<close>, where it holds 1/2, and it does not rise from 0 at \<open>b0\<close> to 1 at \<open>b1 = 0\<close>.
\<close>

theorem get_filterbanks_triangular_counterexample:
  "fbin 1 32 16000 (- 600) 8000 = [- 2, 0, 16]
   \<and> get_filterbanks 1 32 16000 (- 600) (Some 8000) =
       Inr [[1, 15 / 16, 7 / 8, 13 / 16, 3 / 4, 11 / 16, 5 / 8, 9 / 16, 1 / 2, 7 / 16, 3 / 8,
             5 / 16, 1 / 4, 3 / 16, 1 / 8, 1 / 16, 1 / 2]]"
  using fbin_wrap get_filterbanks_wrap by (intro conjI)

text \<open>
  Claim C6, amended. Let \<open>get_filterbanks\<close> return a matrix and let filter \<open>j\<close> have control
  bins \<open>0 \<le> b0 < b1 < b2\<close>; the bins are not negative whenever \<open>minfreq\<close> is not. Then row
  \<open>j\<close> is a triangle: it is zero at every bin up to \<open>b0\<close> and from \<open>b2\<close> on, it is
  \<open>(i - b0) / (b1 - b0)\<close> on the bins from \<open>b0\<close> to \<open>b1\<close>, so it rises linearly and
  monotonically from 0 to its maximum 1 at \<open>b1\<close>, and it is \<open>(b2 - i) / (b2 - b1)\<close> on the
  bins from \<open>b1\<close> to \<open>b2\<close>, so it falls linearly and monotonically back to 0. Every weight
  lies between 0 and 1.
\<close>

theorem get_filterbanks_triangular:
  fixes n_filters n_fft :: int and fs minfreq :: real and maxfreq_arg :: "real option"
    and fb :: "real list list" and j :: nat
  defines "maxfreq \<equiv> (case maxfreq_arg of None \<Rightarrow> of_int \<lfloor>fs / 2\<rfloor> | Some m \<Rightarrow> m)"
  defines "b0 \<equiv> fbin n_filters n_fft fs minfreq maxfreq ! j"
    and "b1 \<equiv> fbin n_filters n_fft fs minfreq maxfreq ! (j + 1)"
    and "b2 \<equiv> fbin n_filters n_fft fs minfreq maxfreq ! (j + 2)"
  assumes ok: "get_filterbanks n_filters n_fft fs minfreq maxfreq_arg = Inr fb"
    and j: "j < length fb"
    and nonneg: "0 \<le> b0" and lt01: "b0 < b1" and lt12: "b1 < b2"
  shows "int (length (fb ! j)) = n_fft div 2 + 1 \<and> b2 \<le> n_fft div 2 + 1
    \<and> (\<forall>i<length (fb ! j).
          (int i \<le> b0 \<or> b2 \<le> int i \<longrightarrow> fb ! j ! i = 0)
        \<and> (b0 \<le> int i \<and> int i \<le> b1 \<longrightarrow>
             fb ! j ! i = (real i - of_int b0) / (of_int b1 - of_int b0))
        \<and> (b1 \<le> int i \<and> int i \<le> b2 \<longrightarrow>
             fb ! j ! i = (of_int b2 - real i) / (of_int b2 - of_int b1))
        \<and> 0 \<le> fb ! j ! i \<and> fb ! j ! i \<le> 1)
    \<and> fb ! j ! nat b0 = 0 \<and> fb ! j ! nat b1 = 1
    \<and> (\<forall>i i'. b0 \<le> int i \<and> i \<le> i' \<and> int i' \<le> b1 \<longrightarrow> fb ! j ! i \<le> fb ! j ! i')
    \<and> (\<forall>i i'. b1 \<le> int i \<and> i \<le> i' \<and> int i' \<le> b2 \<and> i' < length (fb ! j) \<longrightarrow>
          fb ! j ! i' \<le> fb ! j ! i)"
proof -
  define ncols where "ncols = nat (n_fft div 2 + 1)"
  have row: "filter_row ncols b0 b1 b2 = Inr (fb ! j)"
    using get_filterbanks_row[OF ok j] by (simp add: ncols_def b0_def b1_def b2_def maxfreq_def)
  have b1pos: "0 \<le> b1" using nonneg lt01 by simp
  have up: "b2 \<le> int ncols" using filter_row_upper[OF row b1pos lt12] .
  then have ncpos: "int ncols = n_fft div 2 + 1"
    using b1pos lt12 by (cases "0 \<le> n_fft div 2 + 1") (simp_all add: ncols_def)
  have "filter_row ncols b0 b1 b2 = Inr (map (\<lambda>i. filter_weight b0 b1 b2 (int i)) [0..<ncols])"
    using nonneg b1pos lt12 up by (intro filter_row_weights) simp_all
  then have eq: "fb ! j = map (\<lambda>i. filter_weight b0 b1 b2 (int i)) [0..<ncols]"
    using row by simp
  have len: "length (fb ! j) = ncols" by (simp add: eq)
  have nth: "\<And>i. i < ncols \<Longrightarrow> fb ! j ! i = filter_weight b0 b1 b2 (int i)"
    by (simp add: eq)
  have b1lt: "nat b1 < ncols" "nat b0 < ncols" using up lt12 lt01 nonneg by simp_all
  have A: "\<forall>i<length (fb ! j).
          (int i \<le> b0 \<or> b2 \<le> int i \<longrightarrow> fb ! j ! i = 0)
        \<and> (b0 \<le> int i \<and> int i \<le> b1 \<longrightarrow>
             fb ! j ! i = (real i - of_int b0) / (of_int b1 - of_int b0))
        \<and> (b1 \<le> int i \<and> int i \<le> b2 \<longrightarrow>
             fb ! j ! i = (of_int b2 - real i) / (of_int b2 - of_int b1))
        \<and> 0 \<le> fb ! j ! i \<and> fb ! j ! i \<le> 1"
    using lt01 lt12 filter_weight_unit[of b0 b1 b2]
    by (simp add: len nth filter_weight_outside filter_weight_rise filter_weight_fall)
  have B: "fb ! j ! nat b0 = 0"
    using nth[OF b1lt(2)] nonneg lt01 lt12 by (simp add: filter_weight_outside)
  have C: "fb ! j ! nat b1 = 1"
    using nth[OF b1lt(1)] b1pos lt01 lt12 by (simp add: filter_weight_rise)
  have D: "\<forall>i i'. b0 \<le> int i \<and> i \<le> i' \<and> int i' \<le> b1 \<longrightarrow> fb ! j ! i \<le> fb ! j ! i'"
  proof (intro allI impI)
    fix i i' assume h: "b0 \<le> int i \<and> i \<le> i' \<and> int i' \<le> b1"
    then have "i < ncols" "i' < ncols" using up lt12 by simp_all
    then show "fb ! j ! i \<le> fb ! j ! i'"
      using h lt01 lt12 by (simp add: nth filter_weight_rising)
  qed
  have E: "\<forall>i i'. b1 \<le> int i \<and> i \<le> i' \<and> int i' \<le> b2 \<and> i' < length (fb ! j) \<longrightarrow>
          fb ! j ! i' \<le> fb ! j ! i"
  proof (intro allI impI)
    fix i i' assume h: "b1 \<le> int i \<and> i \<le> i' \<and> int i' \<le> b2 \<and> i' < length (fb ! j)"
    then have "i < ncols" "i' < ncols" using len by simp_all
    then show "fb ! j ! i' \<le> fb ! j ! i"
      using h lt01 lt12 by (simp add: nth filter_weight_falling)
  qed
  show ?thesis using len ncpos up A B C D E by simp
qed

lemma get_filterbanks_512:
  "get_filterbanks 1 512 16000 0 (Some 8000)
     = Inr [map (\<lambda>i. filter_weight 0 56 256 (int i)) [0..<257]]"
proof -
  have "\<lfloor>(16000 :: real) / 2\<rfloor> = 8000" by (intro floor_unique) simp_all
  then have "get_filterbanks 1 512 16000 0 (Some 8000) =
     Inr (map (\<lambda>j. map (\<lambda>i. filter_weight (fbin 1 512 16000 0 8000 ! j)
                                (fbin 1 512 16000 0 8000 ! (j + 1))
                                (fbin 1 512 16000 0 8000 ! (j + 2)) (int i))
                      [0..<nat (512 div 2 + 1)])
            [0..<nat 1])"
    by (intro get_filterbanks_total) simp_all
  then show ?thesis by (simp add: fbin_512)
qed

theorem get_filterbanks_triangular_witness:
  "\<exists>fb. get_filterbanks 1 512 16000 0 (Some 8000) = Inr fb \<and> 0 < length fb
     \<and> fbin 1 512 16000 0 8000 = [0, 56, 256]
     \<and> length (fb ! 0) = 257
     \<and> fb ! 0 ! 0 = 0 \<and> fb ! 0 ! 28 = 1 / 2 \<and> fb ! 0 ! 56 = 1
     \<and> fb ! 0 ! 156 = 1 / 2 \<and> fb ! 0 ! 256 = 0"
proof -
  define fb where "fb = [map (\<lambda>i. filter_weight 0 56 256 (int i)) [0..<257]]"
  have ok: "get_filterbanks 1 512 16000 0 (Some 8000) = Inr fb"
    by (simp add: get_filterbanks_512 fb_def)
  have j: "0 < length fb" by (simp add: fb_def)
  have t: "int (length (fb ! 0)) = 257
    \<and> (\<forall>i<length (fb ! 0).
          (int i \<le> 0 \<or> 256 \<le> int i \<longrightarrow> fb ! 0 ! i = 0)
        \<and> (0 \<le> int i \<and> int i \<le> 56 \<longrightarrow> fb ! 0 ! i = (real i - 0) / (56 - 0))
        \<and> (56 \<le> int i \<and> int i \<le> 256 \<longrightarrow> fb ! 0 ! i = (256 - real i) / (256 - 56)))"
    using get_filterbanks_triangular[OF ok j] by (simp add: fbin_512)
  then have len: "length (fb ! 0) = 257" by simp
  from t have all: "\<And>i. i < 257 \<Longrightarrow>
          (int i \<le> 0 \<or> 256 \<le> int i \<longrightarrow> fb ! 0 ! i = 0)
        \<and> (0 \<le> int i \<and> int i \<le> 56 \<longrightarrow> fb ! 0 ! i = (real i - 0) / (56 - 0))
        \<and> (56 \<le> int i \<and> int i \<le> 256 \<longrightarrow> fb ! 0 ! i = (256 - real i) / (256 - 56))"
    unfolding len by blast
  have "fb ! 0 ! 0 = 0" using all[of 0] by simp
  moreover have "fb ! 0 ! 28 = 1 / 2" using all[of 28] by simp
  moreover have "fb ! 0 ! 56 = 1" using all[of 56] by simp
  moreover have "fb ! 0 ! 156 = 1 / 2" using all[of 156] by simp
  moreover have "fb ! 0 ! 256 = 0" using all[of 256] by simp
  ultimately show ?thesis using ok j len fbin_512 by blast
qed

subsection \<open>Filters of zero width\<close>

lemma get_filterbanks_8:
  "get_filterbanks 1 8 16000 0 (Some 8000) = Inr [[1, 3 / 4, 1 / 2, 1 / 4, 0]]"
proof -
  have five: "[0..<5] = [0, 1, 2, 3, 4]" by (simp add: upt_rec)
  have "get_filterbanks 1 8 16000 0 (Some 8000) =
     Inr (map (\<lambda>j. map (\<lambda>i. filter_weight (fbin 1 8 16000 0 8000 ! j)
                                (fbin 1 8 16000 0 8000 ! (j + 1))
                                (fbin 1 8 16000 0 8000 ! (j + 2)) (int i))
                      [0..<nat (8 div 2 + 1)])
            [0..<nat 1])"
    using floor_half_16000 by (intro get_filterbanks_total) simp_all
  then show ?thesis by (simp add: fbin_8 five filter_weight_def)
qed

text \<open>
  Claim C8 says that coinciding control bins make \<open>get_filterbanks\<close> raise. They do not:
  with one filter, an FFT size of 8 and a sample rate of 16000 Hz the control bins are
  \<open>0, 0, 4\<close>, the loop over the empty range \<open>range(0, 0)\<close> never divides, and the matrix
  is returned.
\<close>

theorem get_filterbanks_degenerate_counterexample:
  "fbin 1 8 16000 0 8000 ! 0 = fbin 1 8 16000 0 8000 ! 1
   \<and> get_filterbanks 1 8 16000 0 (Some 8000) = Inr [[1, 3 / 4, 1 / 2, 1 / 4, 0]]"
  by (simp add: fbin_8 get_filterbanks_8)

text \<open>
  Claim C8, amended. For a positive sample rate, band edges with
  \<open>0 \<le> minfreq \<le> maxfreq \<le> fs // 2\<close> and a non-negative FFT size, \<open>get_filterbanks\<close>
  returns its matrix also when two consecutive control bins of filter \<open>j\<close> coincide. The
  side of the triangle that has collapsed contributes no weight: with \<open>b0 = b1\<close> the row
  is the falling side alone, with \<open>b1 = b2\<close> it is the rising side alone (and all zero when
  the three bins coincide).
\<close>

theorem get_filterbanks_degenerate:
  fixes n_filters n_fft :: int and fs minfreq maxfreq :: real and j :: nat
  defines "b0 \<equiv> fbin n_filters n_fft fs minfreq maxfreq ! j"
    and "b1 \<equiv> fbin n_filters n_fft fs minfreq maxfreq ! (j + 1)"
    and "b2 \<equiv> fbin n_filters n_fft fs minfreq maxfreq ! (j + 2)"
  assumes fs: "0 < fs" and lo: "0 \<le> minfreq" and le: "minfreq \<le> maxfreq"
    and hi: "maxfreq \<le> of_int \<lfloor>fs / 2\<rfloor>" and nfft: "0 \<le> n_fft"
    and j: "j < nat n_filters"
    and deg: "b0 = b1 \<or> b1 = b2"
  shows "\<exists>fb. get_filterbanks n_filters n_fft fs minfreq (Some maxfreq) = Inr fb
    \<and> length fb = nat n_filters
    \<and> int (length (fb ! j)) = n_fft div 2 + 1
    \<and> (b0 = b1 \<longrightarrow>
         (\<forall>i<length (fb ! j). fb ! j ! i =
            (if b1 \<le> int i \<and> int i < b2
             then (of_int b2 - real i) / (of_int b2 - of_int b1) else 0)))
    \<and> (b1 = b2 \<longrightarrow>
         (\<forall>i<length (fb ! j). fb ! j ! i =
            (if b0 \<le> int i \<and> int i < b1
             then (real i - of_int b0) / (of_int b1 - of_int b0) else 0)))"
proof -
  define fb where "fb = map (\<lambda>j. map (\<lambda>i. filter_weight (fbin n_filters n_fft fs minfreq maxfreq ! j)
                                (fbin n_filters n_fft fs minfreq maxfreq ! (j + 1))
                                (fbin n_filters n_fft fs minfreq maxfreq ! (j + 2)) (int i))
                      [0..<nat (n_fft div 2 + 1)])
            [0..<nat n_filters]"
  have nfil: "0 \<le> n_filters" using j by simp
  have ok: "get_filterbanks n_filters n_fft fs minfreq (Some maxfreq) = Inr fb"
    unfolding fb_def using fs lo le hi nfft nfil by (rule get_filterbanks_total)
  have len: "length fb = nat n_filters" by (simp add: fb_def)
  have row: "fb ! j = map (\<lambda>i. filter_weight b0 b1 b2 (int i)) [0..<nat (n_fft div 2 + 1)]"
    using j by (simp add: fb_def b0_def b1_def b2_def)
  have rl: "int (length (fb ! j)) = n_fft div 2 + 1" using nfft by (simp add: row)
  have A: "b0 = b1 \<longrightarrow>
         (\<forall>i<length (fb ! j). fb ! j ! i =
            (if b1 \<le> int i \<and> int i < b2
             then (of_int b2 - real i) / (of_int b2 - of_int b1) else 0))"
    by (simp add: row filter_weight_def)
  have B: "b1 = b2 \<longrightarrow>
         (\<forall>i<length (fb ! j). fb ! j ! i =
            (if b0 \<le> int i \<and> int i < b1
             then (real i - of_int b0) / (of_int b1 - of_int b0) else 0))"
    by (simp add: row filter_weight_def)
  from ok len rl A B show ?thesis by blast
qed

theorem get_filterbanks_degenerate_witness:
  "(0 :: real) < 16000 \<and> (0 :: real) \<le> 0 \<and> (0 :: real) \<le> 8000
   \<and> (8000 :: real) \<le> of_int \<lfloor>(16000 :: real) / 2\<rfloor> \<and> (0 :: int) \<le> 8 \<and> (0 :: nat) < nat 1
   \<and> fbin 1 8 16000 0 8000 ! 0 = fbin 1 8 16000 0 8000 ! (0 + 1)
   \<and> (\<exists>fb. get_filterbanks 1 8 16000 0 (Some 8000) = Inr fb \<and> length fb = 1
          \<and> length (fb ! 0) = 5 \<and> fb ! 0 ! 0 = 1 \<and> fb ! 0 ! 2 = 1 / 2 \<and> fb ! 0 ! 4 = 0)"
proof -
  have h: "(0 :: real) < 16000" "(0 :: real) \<le> 0" "(0 :: real) \<le> 8000"
    "(8000 :: real) \<le> of_int \<lfloor>(16000 :: real) / 2\<rfloor>" "(0 :: int) \<le> 8" "(0 :: nat) < nat 1"
    by (simp_all add: floor_half_16000)
  have d: "fbin 1 8 16000 0 8000 ! 0 = fbin 1 8 16000 0 8000 ! (0 + 1)
      \<or> fbin 1 8 16000 0 8000 ! (0 + 1) = fbin 1 8 16000 0 8000 ! (0 + 2)"
    by (simp add: fbin_8)
  from get_filterbanks_degenerate[OF h d] obtain fb where fb:
    "get_filterbanks 1 8 16000 0 (Some 8000) = Inr fb" "length fb = nat 1"
    "int (length (fb ! 0)) = 8 div 2 + 1"
    "fbin 1 8 16000 0 8000 ! 0 = fbin 1 8 16000 0 8000 ! (0 + 1) \<longrightarrow>
         (\<forall>i<length (fb ! 0). fb ! 0 ! i =
            (if fbin 1 8 16000 0 8000 ! (0 + 1) \<le> int i \<and> int i < fbin 1 8 16000 0 8000 ! (0 + 2)
             then (of_int (fbin 1 8 16000 0 8000 ! (0 + 2)) - real i)
                  / (of_int (fbin 1 8 16000 0 8000 ! (0 + 2)) - of_int (fbin 1 8 16000 0 8000 ! (0 + 1)))
             else 0))"
    by blast
  have len: "length (fb ! 0) = 5" using fb(3) by simp
  have all: "\<And>i. i < 5 \<Longrightarrow> fb ! 0 ! i = (if int i < 4 then (4 - real i) / 4 else 0)"
    using fb(4) by (simp add: fbin_8 len)
  have "fb ! 0 ! 0 = 1" "fb ! 0 ! 2 = 1 / 2" "fb ! 0 ! 4 = 0"
    using all[of 0] all[of 2] all[of 4] by simp_all
  then show ?thesis using h fb(1,2) len by (simp add: fbin_8)
qed

section \<open>Spectra\<close>

lemma rfft_length: "length (rfft x n) = n div 2 + 1"
  by (simp add: rfft_def Let_def)

lemma magspec_shape:
  assumes "1 \<le> n_fft"
  shows "\<exists>M. magspec frames n_fft = Inr M \<and> length M = length frames
     \<and> (\<forall>r\<in>set M. int (length r) = n_fft div 2 + 1)"
proof -
  have "int (nat n_fft div 2 + 1) = n_fft div 2 + 1"
    using assms by (simp add: zdiv_int)
  then show ?thesis using assms by (auto simp: magspec_def rfft_length)
qed

lemma powspec_shape:
  assumes "1 \<le> n_fft"
  shows "\<exists>P. powspec frames n_fft = Inr P \<and> length P = length frames
     \<and> (\<forall>r\<in>set P. int (length r) = n_fft div 2 + 1)"
proof -
  from magspec_shape[OF assms, of frames] obtain M where M:
    "magspec frames n_fft = Inr M" "length M = length frames"
    "\<forall>r\<in>set M. int (length r) = n_fft div 2 + 1" by blast
  then show ?thesis using assms by (auto simp: powspec_def)
qed

lemma collect_map_set:
  "collect (map f xs) = Inr ys \<Longrightarrow> y \<in> set ys \<Longrightarrow> \<exists>x\<in>set xs. f x = Inr y"
proof (induction xs arbitrary: ys)
  case Nil
  then show ?case by simp
next
  case (Cons x xs)
  from Cons.prems(1) obtain z zs where z: "f x = Inr z" "collect (map f xs) = Inr zs" "ys = z # zs"
    by (auto split: sum.splits)
  then show ?case using Cons.IH[OF z(2)] Cons.prems(2) by auto
qed

lemma get_filterbanks_columns:
  assumes "get_filterbanks n_filters n_fft fs minfreq maxfreq_arg = Inr fb" "r \<in> set fb"
  shows "int (length r) = n_fft div 2 + 1"
proof -
  define bins where "bins = fbin n_filters n_fft fs minfreq
            (case maxfreq_arg of None \<Rightarrow> of_int \<lfloor>fs / 2\<rfloor> | Some m \<Rightarrow> m)"
  have ne: "fb \<noteq> []" using assms(2) by auto
  have nc: "0 \<le> n_fft div 2 + 1"
    using assms(1) unfolding get_filterbanks_def Let_def by (simp split: if_splits)
  have "collect (map (\<lambda>j. filter_row (nat (n_fft div 2 + 1)) (bins ! j) (bins ! (j + 1))
                                  (bins ! (j + 2))) [0..<nat n_filters]) = Inr fb"
    using assms(1) ne unfolding get_filterbanks_def Let_def bins_def[symmetric]
    by (simp split: if_splits)
  from collect_map_set[OF this assms(2)] obtain j where
    "filter_row (nat (n_fft div 2 + 1)) (bins ! j) (bins ! (j + 1)) (bins ! (j + 2)) = Inr r"
    by blast
  from filter_row_length[OF this] nc show ?thesis by simp
qed

lemma np_dot_T_shape:
  assumes "\<forall>a\<in>set A. \<forall>b\<in>set B. length a = length b"
  shows "\<exists>F. np_dot_T A B = Inr F \<and> length F = length A \<and> (\<forall>r\<in>set F. length r = length B)"
  using assms by (auto simp: np_dot_T_def list_all_iff)



section \<open>Filterbank energies and cepstra\<close>

subsection \<open>Energies are positive\<close>

lemma preemphasis_ok:
  assumes "audio \<noteq> []"
  shows "\<exists>a. preemphasis audio c = Inr a \<and> length a = length audio"
  using assms by (cases audio) (simp_all add: preemphasis_def)

lemma preemphasis_Inr:
  "preemphasis audio c = Inr a \<Longrightarrow> audio \<noteq> [] \<and> length a = length audio"
  by (cases audio) (auto simp: preemphasis_def)







lemma np_dot_T_Inr:
  assumes "np_dot_T A B = Inr F"
  shows "F = map (\<lambda>a. map (\<lambda>b. sum_list (map2 (*) a b)) B) A"
  using assms by (simp add: np_dot_T_def split: if_splits)

text \<open>What a successful call of fbank went through.\<close>

lemma fbank_Inr:
  assumes "fbank audio fs window_dt dt n_filters n_fft minfreq maxfreq_arg preemph
           = Inr (feat, energy)"
  shows "\<exists>audio' frames pspec fb.
      preemphasis audio preemph = Inr audio'
    \<and> framesig audio' (window_dt * fs) (dt * fs) np_ones = Inr frames
    \<and> powspec frames n_fft = Inr pspec
    \<and> get_filterbanks n_filters n_fft fs minfreq
         (Some (case maxfreq_arg of None \<Rightarrow> of_int \<lfloor>fs / 2\<rfloor> | Some m \<Rightarrow> m)) = Inr fb
    \<and> energy = map (\<lambda>row. floor_eps (sum_list row)) pspec
    \<and> feat = map (\<lambda>a. map (\<lambda>b. floor_eps (sum_list (map2 (*) a b))) fb) pspec"
proof -
  from assms obtain audio' frames pspec fb F where
    "preemphasis audio preemph = Inr audio'"
    "framesig audio' (window_dt * fs) (dt * fs) np_ones = Inr frames"
    "powspec frames n_fft = Inr pspec"
    "get_filterbanks n_filters n_fft fs minfreq
         (Some (case maxfreq_arg of None \<Rightarrow> of_int \<lfloor>fs / 2\<rfloor> | Some m \<Rightarrow> m)) = Inr fb"
    "np_dot_T pspec fb = Inr F"
    "feat = map (map floor_eps) F" "energy = map (\<lambda>row. floor_eps (sum_list row)) pspec"
    unfolding fbank_def Let_def by (auto split: sum.splits)
  then show ?thesis using np_dot_T_Inr[of pspec fb F] by (auto simp: comp_def)
qed


subsection \<open>Shapes through the cepstral stage\<close>

lemma length_py_take:
  "length (py_take n xs) = length (py_take n [0..<length xs])"
  by (simp add: py_take_def)

lemma length_py_take_le:
  "0 \<le> n \<Longrightarrow> n \<le> int m \<Longrightarrow> length (py_take n [0..<m]) = nat n"
  by (simp add: py_take_def)

lemma length_py_take_ge:
  "int m \<le> n \<Longrightarrow> length (py_take n [0..<m]) = m"
  by (simp add: py_take_def)

lemma length_dct_row: "length (dct_row r) = length r"
  by (simp add: dct_row_def dct_ortho_def Let_def)

lemma lifter_shape: "map length (lifter c L) = map length c"
  by (simp add: lifter_def comp_def)

lemma same_shape_refl: "same_shape A A"
  by (simp add: same_shape_def)

lemma same_shape_trans: "same_shape A B \<Longrightarrow> same_shape B C \<Longrightarrow> same_shape A C"
  by (simp add: same_shape_def)

lemma derivs_shape:
  assumes "\<forall>M k. same_shape (derivative M k) M"
  shows "length (derivs derivative s t n) = n
       \<and> (\<forall>b\<in>set (derivs derivative s t n). same_shape b t)"
proof (induction n arbitrary: t)
  case 0
  then show ?case by simp
next
  case (Suc n)
  have d: "same_shape (derivative t s) t" using assms by blast
  from Suc[of "derivative t s"] d show ?case
    by (auto intro: same_shape_trans)
qed

lemma np_hstack_shape:
  fixes b :: "'a list list"
  assumes "\<forall>c\<in>set bs. same_shape c b" "map length b = replicate nf w"
  shows "\<exists>M. np_hstack (b # bs) = Inr M \<and> length M = nf
     \<and> (\<forall>r\<in>set M. length r = w * (1 + length bs))
     \<and> (\<forall>i<nf. \<exists>rest. M ! i = b ! i @ rest)"
proof -
  have lb: "length b = nf" using assms(2) by (metis length_map length_replicate)
  have lc: "\<And>c. c \<in> set (b # bs) \<Longrightarrow> map length c = replicate nf w"
    using assms by (auto simp: same_shape_def)
  have lens: "list_all (\<lambda>c. length c = length b) bs"
    using lc lb by (auto simp: list_all_iff) (metis length_map length_replicate)
  define M where "M = map (\<lambda>i. concat (map (\<lambda>c. c ! i) (b # bs))) [0..<length b]"
  have res: "np_hstack (b # bs) = Inr M"
    using lens by (simp add: np_hstack_def M_def)
  have row: "\<And>i. i < nf \<Longrightarrow> length (concat (map (\<lambda>c. c ! i) (b # bs))) = w * (1 + length bs)"
  proof -
    fix i assume i: "i < nf"
    have "\<And>c. c \<in> set (b # bs) \<Longrightarrow> length (c ! i) = w"
    proof -
      fix c assume c: "c \<in> set (b # bs)"
      have "length c = nf" using lc[OF c] by (metis length_map length_replicate)
      then have "length (c ! i) = map length c ! i" using i by simp
      also have "\<dots> = w" using lc[OF c] i by simp
      finally show "length (c ! i) = w" .
    qed
    then have "map (\<lambda>c. length (c ! i)) (b # bs) = map (\<lambda>c. w) (b # bs)"
      by (intro map_cong) simp_all
    then have "map (\<lambda>c. length (c ! i)) (b # bs) = replicate (length (b # bs)) w"
      by (simp only: map_replicate_const)
    then have "sum_list (map length (map (\<lambda>c. c ! i) (b # bs))) = w * (1 + length bs)"
      by (simp add: comp_def sum_list_replicate del: list.map)
    then show "length (concat (map (\<lambda>c. c ! i) (b # bs))) = w * (1 + length bs)"
      by (simp only: length_concat)
  qed
  have "\<forall>r\<in>set M. length r = w * (1 + length bs)"
    using row lb by (auto simp: M_def simp del: list.map)
  moreover have "\<forall>i<nf. \<exists>rest. M ! i = b ! i @ rest"
    using lb by (simp add: M_def)
  moreover have "length M = nf" using lb by (simp add: M_def)
  ultimately show ?thesis using res by blast
qed

lemma fbank_total:
  fixes fs :: real and maxfreq_arg :: "real option"
  defines "maxfreq \<equiv> (case maxfreq_arg of None \<Rightarrow> of_int \<lfloor>fs / 2\<rfloor> | Some m \<Rightarrow> m)"
  assumes audio: "audio \<noteq> []"
    and fl: "0 \<le> py_round (window_dt * fs)" and st: "1 \<le> py_round (dt * fs)"
    and nfft: "1 \<le> n_fft" and fs: "0 < fs"
    and lo: "0 \<le> minfreq" and le: "minfreq \<le> maxfreq" and hi: "maxfreq \<le> of_int \<lfloor>fs / 2\<rfloor>"
    and nfil: "0 \<le> n_filters"
    and nf: "numframes (int (length audio)) (py_round (window_dt * fs)) (py_round (dt * fs)) = Inr nf"
  shows "\<exists>feat energy.
      fbank audio fs window_dt dt n_filters n_fft minfreq maxfreq_arg preemph = Inr (feat, energy)
    \<and> length feat = nat nf \<and> length energy = nat nf
    \<and> (\<forall>r\<in>set feat. length r = nat n_filters)"
proof -
  from preemphasis_ok[OF audio, of preemph] obtain a where a:
    "preemphasis audio preemph = Inr a" "length a = length audio" by blast
  have w: "length (np_ones (py_round (window_dt * fs))) = nat (py_round (window_dt * fs))"
    by (simp add: np_ones_def)
  have nf': "numframes (int (length a)) (py_round (window_dt * fs)) (py_round (dt * fs)) = Inr nf"
    using nf a(2) by simp
  from framesig_result[of "window_dt * fs" "dt * fs" np_ones a nf, OF fl st w nf']
  obtain frames where fr:
    "framesig a (window_dt * fs) (dt * fs) np_ones = Inr frames" "length frames = nat nf"
    by simp
  from powspec_shape[OF nfft, of frames] obtain P where P:
    "powspec frames n_fft = Inr P" "length P = length frames"
    "\<forall>r\<in>set P. int (length r) = n_fft div 2 + 1" by blast
  have nfft0: "0 \<le> n_fft" using nfft by simp
  from get_filterbanks_total[OF fs lo le hi nfft0 nfil] obtain fb where fb:
    "get_filterbanks n_filters n_fft fs minfreq (Some maxfreq) = Inr fb"
    "length fb = nat n_filters"
    by simp
  have "\<forall>a\<in>set P. \<forall>b\<in>set fb. length a = length b"
  proof (intro ballI)
    fix x y assume "x \<in> set P" "y \<in> set fb"
    then have "int (length x) = int (length y)"
      using P(3) get_filterbanks_columns[OF fb(1)] by simp
    then show "length x = length y" by simp
  qed
  from np_dot_T_shape[OF this] obtain F where F:
    "np_dot_T P fb = Inr F" "length F = length P" "\<forall>r\<in>set F. length r = length fb"
    by blast
  have "fbank audio fs window_dt dt n_filters n_fft minfreq maxfreq_arg preemph
      = Inr (map (map floor_eps) F, map (\<lambda>row. floor_eps (sum_list row)) P)"
    using a(1) fr(1) P(1) fb(1) F(1)
    by (simp add: fbank_def Let_def maxfreq_def[symmetric])
  then show ?thesis using F(2,3) P(2) fr(2) fb(2) by auto
qed

lemma get_filterbanks_length:
  assumes "get_filterbanks n_filters n_fft fs minfreq maxfreq_arg = Inr fb"
  shows "length fb = nat n_filters"
proof (cases "fb = []")
  case True
  have "\<not> n_filters < 0"
    using assms unfolding get_filterbanks_def Let_def by (auto split: if_splits)
  moreover have "0 < n_filters \<Longrightarrow> False"
  proof -
    assume pos: "0 < n_filters"
    define bins where "bins = fbin n_filters n_fft fs minfreq
            (case maxfreq_arg of None \<Rightarrow> of_int \<lfloor>fs / 2\<rfloor> | Some m \<Rightarrow> m)"
    have "collect (map (\<lambda>j. filter_row (nat (n_fft div 2 + 1)) (bins ! j) (bins ! (j + 1))
                                  (bins ! (j + 2))) [0..<nat n_filters]) = Inr fb"
      using assms pos unfolding get_filterbanks_def Let_def bins_def[symmetric]
      by (simp split: if_splits)
    from collect_map_Inr[OF this] True pos show False by simp
  qed
  ultimately show ?thesis using True by (cases "n_filters = 0") auto
next
  case False
  then have "0 < length fb" by simp
  from get_filterbanks_row[OF assms this] show ?thesis by simp
qed

lemma fbank_shape:
  assumes "fbank audio fs window_dt dt n_filters n_fft minfreq maxfreq_arg preemph
           = Inr (feat0, energy0)"
  shows "length energy0 = length feat0 \<and> (\<forall>r\<in>set feat0. length r = nat n_filters)"
proof -
  from fbank_Inr[OF assms] obtain pspec fb where f:
    "get_filterbanks n_filters n_fft fs minfreq
         (Some (case maxfreq_arg of None \<Rightarrow> of_int \<lfloor>fs / 2\<rfloor> | Some m \<Rightarrow> m)) = Inr fb"
    "energy0 = map (\<lambda>row. floor_eps (sum_list row)) pspec"
    "feat0 = map (\<lambda>a. map (\<lambda>b. floor_eps (sum_list (map2 (*) a b))) fb) pspec"
    by blast
  show ?thesis using get_filterbanks_length[OF f(1)] by (auto simp: f(2,3))
qed

lemma mfcc_feat:
  assumes fb: "fbank audio fs window_dt dt n_filters n_fft minfreq maxfreq_arg preemph
               = Inr (feat0, energy0)"
    and nfil: "1 \<le> n_filters"
    and e: "energy \<longrightarrow> py_take n_cepstra [0..<nat n_filters] \<noteq> []"
  shows "\<exists>feat. mfcc derivative audio fs window_dt dt n_cepstra n_filters n_fft minfreq maxfreq_arg
                preemph lift energy n_derivatives deriv_spread
              = np_hstack (feat # derivs derivative deriv_spread feat (nat n_derivatives))
    \<and> map length feat
        = replicate (length feat0) (length (py_take n_cepstra [0..<nat n_filters]))
    \<and> (energy \<longrightarrow> (\<forall>i<length feat0. feat ! i \<noteq> [] \<and> feat ! i ! 0 = np_log (energy0 ! i)))"
proof -
  define nf where "nf = length feat0"
  have le: "length energy0 = nf" and r0: "\<forall>r\<in>set feat0. length r = nat n_filters"
    using fbank_shape[OF fb] by (simp_all add: nf_def)
  have l0: "length feat0 = nf" by (simp add: nf_def)
  define ncep where "ncep = length (py_take n_cepstra [0..<nat n_filters])"
  define cep where "cep = map dct_row (map (map np_log) feat0)"
  define feat1 where "feat1 = lifter (map (py_take n_cepstra) cep) lift"
  define feat where "feat = (if energy then map2 (\<lambda>row e. row[0 := np_log e]) feat1 energy0
                                     else feat1)"
  have dct: "dct (nat n_filters) (map (map np_log) feat0) = Inr cep"
    using nfil by (simp add: dct_def cep_def)
  have "map length (map (py_take n_cepstra) cep) = replicate nf ncep"
  proof (intro nth_equalityI)
    show "length (map length (map (py_take n_cepstra) cep)) = length (replicate nf ncep)"
      using l0 by (simp add: cep_def)
  next
    fix i assume "i < length (map length (map (py_take n_cepstra) cep))"
    then have i: "i < nf" using l0 by (simp add: cep_def)
    then have "length (cep ! i) = nat n_filters"
      using l0 r0 by (simp add: cep_def length_dct_row)
    then have "length (py_take n_cepstra (cep ! i)) = ncep"
      using length_py_take[of n_cepstra "cep ! i"] by (simp add: ncep_def)
    then show "map length (map (py_take n_cepstra) cep) ! i = replicate nf ncep ! i"
      using i l0 by (simp add: cep_def)
  qed
  then have f1: "map length feat1 = replicate nf ncep"
    by (simp add: feat1_def lifter_shape)
  then have f1l: "length feat1 = nf" by (metis length_map length_replicate)
  have f1n: "\<And>i. i < nf \<Longrightarrow> length (feat1 ! i) = ncep"
  proof -
    fix i assume i: "i < nf"
    then have "length (feat1 ! i) = map length feat1 ! i" using f1l by simp
    then show "length (feat1 ! i) = ncep" using f1 i by simp
  qed
  have fl: "length feat = nf" using f1l le by (simp add: feat_def)
  have fnth: "\<And>i. i < nf \<Longrightarrow> feat ! i = (if energy then (feat1 ! i)[0 := np_log (energy0 ! i)]
                                           else feat1 ! i)"
    using f1l le by (simp add: feat_def)
  have f: "map length feat = replicate nf ncep"
    using fl fnth f1n by (intro nth_equalityI) simp_all
  have res: "mfcc derivative audio fs window_dt dt n_cepstra n_filters n_fft minfreq maxfreq_arg
                preemph lift energy n_derivatives deriv_spread
     = np_hstack (feat # derivs derivative deriv_spread feat (nat n_derivatives))"
    using fb dct e
    by (cases energy)
       (simp_all add: mfcc_def Let_def feat1_def[symmetric] feat_def)
  have en: "energy \<longrightarrow> (\<forall>i<nf. feat ! i \<noteq> [] \<and> feat ! i ! 0 = np_log (energy0 ! i))"
  proof (intro impI allI)
    fix i assume en: energy and i: "i < nf"
    have pos: "0 < ncep" using e en by (simp add: ncep_def)
    have "feat ! i = (feat1 ! i)[0 := np_log (energy0 ! i)]" using fnth[OF i] en by simp
    moreover have "0 < length (feat1 ! i)" using f1n[OF i] pos by simp
    ultimately show "feat ! i \<noteq> [] \<and> feat ! i ! 0 = np_log (energy0 ! i)"
      by auto
  qed
  show ?thesis using res f en unfolding nf_def ncep_def by blast
qed

lemma mfcc_shape:
  assumes fb: "fbank audio fs window_dt dt n_filters n_fft minfreq maxfreq_arg preemph
               = Inr (feat0, energy0)"
    and nfil: "1 \<le> n_filters"
    and d: "0 < n_derivatives \<longrightarrow> (\<forall>M k. same_shape (derivative M k) M)"
    and e: "energy \<longrightarrow> py_take n_cepstra [0..<nat n_filters] \<noteq> []"
  shows "\<exists>M. mfcc derivative audio fs window_dt dt n_cepstra n_filters n_fft minfreq maxfreq_arg
                preemph lift energy n_derivatives deriv_spread = Inr M
    \<and> length M = length feat0
    \<and> (\<forall>r\<in>set M. length r
          = length (py_take n_cepstra [0..<nat n_filters]) * (1 + nat n_derivatives))"
proof -
  from mfcc_feat[OF fb nfil e] obtain feat where feat:
    "mfcc derivative audio fs window_dt dt n_cepstra n_filters n_fft minfreq maxfreq_arg
                preemph lift energy n_derivatives deriv_spread
              = np_hstack (feat # derivs derivative deriv_spread feat (nat n_derivatives))"
    "map length feat
        = replicate (length feat0) (length (py_take n_cepstra [0..<nat n_filters]))"
    by blast
  have ds: "(\<forall>c\<in>set (derivs derivative deriv_spread feat (nat n_derivatives)). same_shape c feat)
    \<and> length (derivs derivative deriv_spread feat (nat n_derivatives)) = nat n_derivatives"
  proof (cases "0 < n_derivatives")
    case True
    then show ?thesis
      using derivs_shape[of derivative deriv_spread feat "nat n_derivatives"] d by blast
  next
    case False
    then have "nat n_derivatives = 0" by simp
    then show ?thesis by simp
  qed
  from np_hstack_shape[OF _ feat(2), of "derivs derivative deriv_spread feat (nat n_derivatives)"]
    ds feat(1)
  show ?thesis by auto
qed



subsection \<open>The width of the feature matrix\<close>

lemma py_round_of_int: "py_round (of_int n) = n"
  by (simp add: py_round_def)

lemma mfcc_total:
  fixes fs :: real and maxfreq_arg :: "real option"
  defines "maxfreq \<equiv> (case maxfreq_arg of None \<Rightarrow> of_int \<lfloor>fs / 2\<rfloor> | Some m \<Rightarrow> m)"
  assumes audio: "audio \<noteq> []"
    and fl: "0 \<le> py_round (window_dt * fs)" and st: "1 \<le> py_round (dt * fs)"
    and nfft: "1 \<le> n_fft" and fs: "0 < fs"
    and lo: "0 \<le> minfreq" and le: "minfreq \<le> maxfreq" and hi: "maxfreq \<le> of_int \<lfloor>fs / 2\<rfloor>"
    and nfil: "1 \<le> n_filters"
    and e: "energy \<longrightarrow> py_take n_cepstra [0..<nat n_filters] \<noteq> []"
    and d: "0 < n_derivatives \<longrightarrow> (\<forall>M k. same_shape (derivative M k) M)"
    and nf: "numframes (int (length audio)) (py_round (window_dt * fs)) (py_round (dt * fs)) = Inr nf"
  shows "\<exists>M. mfcc derivative audio fs window_dt dt n_cepstra n_filters n_fft minfreq maxfreq_arg
                preemph lift energy n_derivatives deriv_spread = Inr M
    \<and> length M = nat nf
    \<and> (\<forall>r\<in>set M. length r
          = length (py_take n_cepstra [0..<nat n_filters]) * (1 + nat n_derivatives))"
proof -
  have nfil0: "0 \<le> n_filters" using nfil by simp
  from fbank_total[OF audio fl st nfft fs lo le[unfolded maxfreq_def] hi[unfolded maxfreq_def]
      nfil0 nf, of preemph]
  obtain feat0 energy0 where f:
    "fbank audio fs window_dt dt n_filters n_fft minfreq maxfreq_arg preemph = Inr (feat0, energy0)"
    "length feat0 = nat nf" by blast
  from mfcc_shape[OF f(1) nfil d e] f(2) show ?thesis by simp
qed

lemma default_geometry:
  "py_round (1 / 40 * 16000) = 400" "py_round (1 / 100 * 16000) = 160"
  "numframes 16000 400 160 = Inr 99"
proof -
  show "py_round (1 / 40 * 16000) = 400" using py_round_of_int[of 400] by simp
  show "py_round (1 / 100 * 16000) = 160" using py_round_of_int[of 160] by simp
  have "\<lceil>(15600 :: real) / 160\<rceil> = 98" by (intro ceiling_unique) simp_all
  then show "numframes 16000 400 160 = Inr 99" by (simp add: numframes_def)
qed

lemma mfcc_default:
  assumes "length audio = 16000" and that: "py_take n_cepstra [0..<26 :: nat] \<noteq> []"
  shows "\<exists>M. mfcc derivative audio 16000 (1 / 40) (1 / 100) n_cepstra 26 512 0 None (97 / 100) 22
               True 0 2 = Inr M
     \<and> length M = 99
     \<and> (\<forall>r\<in>set M. length r = length (py_take n_cepstra [0..<26]))"
proof -
  have a: "audio \<noteq> []" using assms by auto
  have nf: "numframes (int (length audio)) (py_round (1 / 40 * 16000)) (py_round (1 / 100 * 16000))
      = Inr 99"
    using assms default_geometry by simp
  have e: "True \<longrightarrow> py_take n_cepstra [0..<nat 26] \<noteq> []" using that by simp
  have d: "(0 :: int) < 0 \<longrightarrow> (\<forall>M k. same_shape (derivative M k) M)" by simp
  have "\<exists>M. mfcc derivative audio 16000 (1 / 40) (1 / 100) n_cepstra 26 512 0 None (97 / 100) 22
               True 0 2 = Inr M
     \<and> length M = nat 99
     \<and> (\<forall>r\<in>set M. length r = length (py_take n_cepstra [0..<nat 26]) * (1 + nat 0))"
    using default_geometry(1,2) floor_half_16000
    by (intro mfcc_total[OF a _ _ _ _ _ _ _ _ e d nf]) simp_all
  then show ?thesis by simp
qed

text \<open>
  Claim C2. For a non-empty signal and valid parameters (rounded window length and step of
  at least one sample, \<open>n_fft \<ge> 1\<close>, a positive sample rate, band edges with
  \<open>0 \<le> minfreq \<le> maxfreq \<le> fs // 2\<close>, \<open>0 \<le> n_cepstra \<le> n_filters\<close> with at least one
  filter, at least one cepstrum when the energy replaces coefficient 0, a non-negative
  number of derivatives, and a \<^verbatim>\<open>derivative\<close> that keeps the shape of its argument) \<open>mfcc\<close>
  returns a matrix with one row per frame and exactly \<open>n_cepstra * (1 + n_derivatives)\<close>
  columns. In particular every signal of 16000 samples, at 16000 Hz with 25 ms windows,
  10 ms steps and the default parameters, gives 99 rows and 13 columns.
\<close>

theorem mfcc_width:
  fixes audio :: "real list" and fs window_dt dt minfreq preemph lift :: real
    and maxfreq_arg :: "real option" and n_cepstra n_filters n_fft n_derivatives deriv_spread :: int
    and energy :: bool and derivative :: "xreal list list \<Rightarrow> int \<Rightarrow> xreal list list"
  defines "maxfreq \<equiv> (case maxfreq_arg of None \<Rightarrow> of_int \<lfloor>fs / 2\<rfloor> | Some m \<Rightarrow> m)"
    and "fl \<equiv> py_round (window_dt * fs)"
    and "st \<equiv> py_round (dt * fs)"
    and "slen \<equiv> int (length audio)"
  assumes audio: "audio \<noteq> []"
    and fl: "1 \<le> fl" and st: "1 \<le> st"
    and nfft: "1 \<le> n_fft" and fs: "0 < fs"
    and lo: "0 \<le> minfreq" and le: "minfreq \<le> maxfreq" and hi: "maxfreq \<le> of_int \<lfloor>fs / 2\<rfloor>"
    and nc0: "0 \<le> n_cepstra" and nc: "n_cepstra \<le> n_filters" and nfil: "1 \<le> n_filters"
    and e: "energy \<longrightarrow> 1 \<le> n_cepstra"
    and nd: "0 \<le> n_derivatives"
    and d: "\<forall>M k. same_shape (derivative M k) M"
  shows "(\<exists>M. mfcc derivative audio fs window_dt dt n_cepstra n_filters n_fft minfreq maxfreq_arg
                preemph lift energy n_derivatives deriv_spread = Inr M
          \<and> int (length M) = (if slen \<le> fl then 1
               else 1 + \<lceil>(real_of_int slen - real_of_int fl) / real_of_int st\<rceil>)
          \<and> (\<forall>r\<in>set M. int (length r) = n_cepstra * (1 + n_derivatives)))
     \<and> (\<forall>a. length a = 16000 \<longrightarrow>
          (\<exists>M. mfcc derivative a 16000 (1 / 40) (1 / 100) 13 26 512 0 None (97 / 100) 22
                  True 0 2 = Inr M
             \<and> length M = 99 \<and> (\<forall>r\<in>set M. length r = 13)))"
proof -
  define nf where "nf = (if slen \<le> fl then 1
               else 1 + \<lceil>(real_of_int slen - real_of_int fl) / real_of_int st\<rceil>)"
  have nf: "numframes (int (length audio)) (py_round (window_dt * fs)) (py_round (dt * fs)) = Inr nf"
    using st by (simp add: numframes_def nf_def slen_def fl_def st_def)
  have nfpos: "1 \<le> nf" using numframes_pos[OF _ nf] st by (simp add: st_def)
  have w: "length (py_take n_cepstra [0..<nat n_filters]) = nat n_cepstra"
    using nc0 nc by (intro length_py_take_le) simp_all
  have e': "energy \<longrightarrow> py_take n_cepstra [0..<nat n_filters] \<noteq> []"
    using e w by auto
  have d': "0 < n_derivatives \<longrightarrow> (\<forall>M k. same_shape (derivative M k) M)" using d by simp
  have fl0: "0 \<le> py_round (window_dt * fs)" using fl by (simp add: fl_def)
  from mfcc_total[OF audio fl0 st[unfolded st_def] nfft fs lo le[unfolded maxfreq_def]
      hi[unfolded maxfreq_def] nfil e' d' nf, of preemph lift deriv_spread]
  obtain M where M: "mfcc derivative audio fs window_dt dt n_cepstra n_filters n_fft minfreq
      maxfreq_arg preemph lift energy n_derivatives deriv_spread = Inr M"
    "length M = nat nf"
    "\<forall>r\<in>set M. length r = length (py_take n_cepstra [0..<nat n_filters]) * (1 + nat n_derivatives)"
    by blast
  have "\<forall>r\<in>set M. int (length r) = n_cepstra * (1 + n_derivatives)"
    using M(3) w nc0 nd by (simp add: nat_mult_distrib distrib_left)
  moreover have "int (length M) = nf" using M(2) nfpos by simp
  ultimately have A: "\<exists>M. mfcc derivative audio fs window_dt dt n_cepstra n_filters n_fft minfreq
      maxfreq_arg preemph lift energy n_derivatives deriv_spread = Inr M
          \<and> int (length M) = (if slen \<le> fl then 1
               else 1 + \<lceil>(real_of_int slen - real_of_int fl) / real_of_int st\<rceil>)
          \<and> (\<forall>r\<in>set M. int (length r) = n_cepstra * (1 + n_derivatives))"
    using M(1) unfolding nf_def by blast
  have B: "\<forall>a. length a = 16000 \<longrightarrow>
          (\<exists>M. mfcc derivative a 16000 (1 / 40) (1 / 100) 13 26 512 0 None (97 / 100) 22
                  True 0 2 = Inr M
             \<and> length M = 99 \<and> (\<forall>r\<in>set M. length r = 13))"
  proof (intro allI impI)
    fix a :: "real list" assume a: "length a = 16000"
    have t: "py_take 13 [0..<26 :: nat] \<noteq> []" "length (py_take 13 [0..<26 :: nat]) = 13"
      by (simp_all add: py_take_def)
    from mfcc_default[OF a t(1), of derivative] t(2)
    show "\<exists>M. mfcc derivative a 16000 (1 / 40) (1 / 100) 13 26 512 0 None (97 / 100) 22
                  True 0 2 = Inr M
             \<and> length M = 99 \<and> (\<forall>r\<in>set M. length r = 13)"
      by simp
  qed
  from A B show ?thesis by blast
qed

theorem mfcc_width_witness:
  "map (\<lambda>t. sin (2 * pi * real t / 16000)) [0..<16000] \<noteq> []
   \<and> 1 \<le> py_round (1 / 40 * 16000) \<and> 1 \<le> py_round (1 / 100 * 16000)
   \<and> (\<exists>M. mfcc (\<lambda>M k. M) (map (\<lambda>t. sin (2 * pi * real t / 16000)) [0..<16000]) 16000
             (1 / 40) (1 / 100) 13 26 512 0 None (97 / 100) 22 True 0 2 = Inr M
          \<and> length M = 99 \<and> list_all (\<lambda>r. length r = 13) M)"
proof -
  define sine where "sine = map (\<lambda>t. sin (2 * pi * real t / 16000)) [0..<16000]"
  have len: "length sine = 16000" by (simp add: sine_def)
  have ne: "sine \<noteq> []" using len by auto
  have g: "1 \<le> py_round (1 / 40 * 16000)" "1 \<le> py_round (1 / 100 * 16000)"
    using default_geometry(1,2) by simp_all
  have c: "\<lceil>(15600 :: real) / 160\<rceil> = 98" by (intro ceiling_unique) simp_all
  have r: "py_round 400 = 400" "py_round 160 = 160"
    using py_round_of_int[of 400] py_round_of_int[of 160] by simp_all
  have "\<exists>M. mfcc (\<lambda>M k. M) sine 16000 (1 / 40) (1 / 100) 13 26 512 0 None (97 / 100) 22
              True 0 2 = Inr M
          \<and> int (length M) = 99 \<and> (\<forall>r\<in>set M. int (length r) = 13)"
    using mfcc_width[where audio = sine and fs = 16000 and window_dt = "1 / 40"
        and dt = "1 / 100" and n_cepstra = 13 and n_filters = 26 and n_fft = 512
        and minfreq = 0 and maxfreq_arg = None and energy = True and n_derivatives = 0
        and derivative = "\<lambda>M k. M" and preemph = "97 / 100" and lift = 22
        and deriv_spread = 2]
      ne floor_half_16000
    by (simp add: r len c same_shape_def)
  then have "\<exists>M. mfcc (\<lambda>M k. M) sine 16000 (1 / 40) (1 / 100) 13 26 512 0 None (97 / 100) 22
              True 0 2 = Inr M \<and> length M = 99 \<and> list_all (\<lambda>r. length r = 13) M"
    by (auto simp: list_all_iff)
  then show ?thesis using ne g unfolding sine_def by blast
qed

subsection \<open>More cepstra than filters\<close>

lemma mfcc_30_of_26:
  "\<exists>M. mfcc (\<lambda>M k. M) (replicate 16000 0) 16000 (1 / 40) (1 / 100) 30 26 512 0 None
           (97 / 100) 22 True 0 2 = Inr M
     \<and> map length M = replicate 99 26"
proof -
  have t: "py_take 30 [0..<26 :: nat] \<noteq> []" "length (py_take 30 [0..<26 :: nat]) = 26"
    by (simp_all add: py_take_def)
  have "length (replicate 16000 (0 :: real)) = 16000" by simp
  from mfcc_default[OF this t(1), of "\<lambda>M k. M"] t(2) obtain M where M:
    "mfcc (\<lambda>M k. M) (replicate 16000 0) 16000 (1 / 40) (1 / 100) 30 26 512 0 None
           (97 / 100) 22 True 0 2 = Inr M" "length M = 99" "\<forall>r\<in>set M. length r = 26"
    by auto
  have "map length M = replicate 99 26"
    using M(2,3) by (intro nth_equalityI) simp_all
  then show ?thesis using M(1) by blast
qed

text \<open>
  Claim C3 says that \<open>n_cepstra > n_filters\<close> raises. It does not: with 30 cepstra of 26
  filters on one second of silence, \<open>mfcc\<close> returns 99 rows of 26 columns.
\<close>

theorem mfcc_too_many_cepstra_counterexample:
  "\<not> isl (mfcc (\<lambda>M k. M) (replicate 16000 0) 16000 (1 / 40) (1 / 100) 30 26 512 0 None
            (97 / 100) 22 True 0 2)
   \<and> map length (projr (mfcc (\<lambda>M k. M) (replicate 16000 0) 16000 (1 / 40) (1 / 100) 30 26 512 0
                          None (97 / 100) 22 True 0 2)) = replicate 99 26"
  using mfcc_30_of_26 by auto

text \<open>
  Claim C3, amended. With otherwise valid parameters, a call of \<open>mfcc\<close> with
  \<open>n_cepstra > n_filters\<close> raises nothing: the slice \<^verbatim>\<open>[:, :n_cepstra]\<close> keeps the
  \<open>n_filters\<close> coefficients that the cosine transform produced, and the matrix returned
  has \<open>n_filters * (1 + n_derivatives)\<close> columns.
\<close>

theorem mfcc_too_many_cepstra:
  fixes audio :: "real list" and fs window_dt dt minfreq preemph lift :: real
    and maxfreq_arg :: "real option" and n_cepstra n_filters n_fft n_derivatives deriv_spread :: int
    and energy :: bool and derivative :: "xreal list list \<Rightarrow> int \<Rightarrow> xreal list list"
  defines "maxfreq \<equiv> (case maxfreq_arg of None \<Rightarrow> of_int \<lfloor>fs / 2\<rfloor> | Some m \<Rightarrow> m)"
  assumes many: "n_filters < n_cepstra"
    and audio: "audio \<noteq> []"
    and fl: "1 \<le> py_round (window_dt * fs)" and st: "1 \<le> py_round (dt * fs)"
    and nfft: "1 \<le> n_fft" and fs: "0 < fs"
    and lo: "0 \<le> minfreq" and le: "minfreq \<le> maxfreq" and hi: "maxfreq \<le> of_int \<lfloor>fs / 2\<rfloor>"
    and nfil: "1 \<le> n_filters"
    and nd: "0 \<le> n_derivatives"
    and d: "\<forall>M k. same_shape (derivative M k) M"
  shows "\<exists>M. mfcc derivative audio fs window_dt dt n_cepstra n_filters n_fft minfreq maxfreq_arg
                preemph lift energy n_derivatives deriv_spread = Inr M
          \<and> M \<noteq> []
          \<and> (\<forall>r\<in>set M. int (length r) = n_filters * (1 + n_derivatives))"
proof -
  define nf where "nf = (if int (length audio) \<le> py_round (window_dt * fs) then 1
      else 1 + \<lceil>(real_of_int (int (length audio)) - real_of_int (py_round (window_dt * fs)))
                  / real_of_int (py_round (dt * fs))\<rceil>)"
  have nf: "numframes (int (length audio)) (py_round (window_dt * fs)) (py_round (dt * fs)) = Inr nf"
    using st by (simp add: numframes_def nf_def)
  have nfpos: "1 \<le> nf" using numframes_pos[OF st nf] .
  have w: "length (py_take n_cepstra [0..<nat n_filters]) = nat n_filters"
    using many nfil by (intro length_py_take_ge) simp
  have e': "energy \<longrightarrow> py_take n_cepstra [0..<nat n_filters] \<noteq> []"
    using w nfil by auto
  have d': "0 < n_derivatives \<longrightarrow> (\<forall>M k. same_shape (derivative M k) M)" using d by simp
  have fl0: "0 \<le> py_round (window_dt * fs)" using fl by simp
  from mfcc_total[OF audio fl0 st nfft fs lo le[unfolded maxfreq_def]
      hi[unfolded maxfreq_def] nfil e' d' nf, of preemph lift deriv_spread]
  obtain M where M: "mfcc derivative audio fs window_dt dt n_cepstra n_filters n_fft minfreq
      maxfreq_arg preemph lift energy n_derivatives deriv_spread = Inr M"
    "length M = nat nf"
    "\<forall>r\<in>set M. length r = length (py_take n_cepstra [0..<nat n_filters]) * (1 + nat n_derivatives)"
    by blast
  have "\<forall>r\<in>set M. int (length r) = n_filters * (1 + n_derivatives)"
    using M(3) w nfil nd by (simp add: nat_mult_distrib distrib_left)
  moreover have "M \<noteq> []" using M(2) nfpos by auto
  ultimately show ?thesis using M(1) by blast
qed

theorem mfcc_too_many_cepstra_witness:
  "(26 :: int) < 30 \<and> replicate 16000 (0 :: real) \<noteq> []
   \<and> 1 \<le> py_round (1 / 40 * 16000) \<and> 1 \<le> py_round (1 / 100 * 16000)
   \<and> (\<exists>M. mfcc (\<lambda>M k. M) (replicate 16000 0) 16000 (1 / 40) (1 / 100) 30 26 512 0 None
              (97 / 100) 22 True 0 2 = Inr M
          \<and> M \<noteq> [] \<and> list_all (\<lambda>r. length r = 26) M)"
proof -
  have r: "py_round 400 = 400" "py_round 160 = 160"
    using py_round_of_int[of 400] py_round_of_int[of 160] by simp_all
  have "\<exists>M. mfcc (\<lambda>M k. M) (replicate 16000 0) 16000 (1 / 40) (1 / 100) 30 26 512 0 None
              (97 / 100) 22 True 0 2 = Inr M
          \<and> M \<noteq> [] \<and> (\<forall>r\<in>set M. int (length r) = 26)"
    using mfcc_too_many_cepstra[where audio = "replicate 16000 0" and fs = 16000
        and window_dt = "1 / 40" and dt = "1 / 100" and n_cepstra = 30 and n_filters = 26
        and n_fft = 512 and minfreq = 0 and maxfreq_arg = None and energy = True
        and n_derivatives = 0 and derivative = "\<lambda>M k. M" and preemph = "97 / 100"
        and lift = 22 and deriv_spread = 2]
      floor_half_16000
    by (simp add: r same_shape_def)
  then have "\<exists>M. mfcc (\<lambda>M k. M) (replicate 16000 0) 16000 (1 / 40) (1 / 100) 30 26 512 0 None
              (97 / 100) 22 True 0 2 = Inr M
          \<and> M \<noteq> [] \<and> list_all (\<lambda>r. length r = 26) M"
    by (auto simp: list_all_iff)
  then show ?thesis using r by simp
qed

subsection \<open>The energy column\<close>








subsection \<open>Arithmetic in the range of float64\<close>













subsection \<open>A spectrum whose square overflows\<close>








subsection \<open>Finite logarithms\<close>




subsection \<open>Silence and a decaying signal\<close>












section \<open>Overlap-add\<close>

subsection \<open>Adding one frame in place\<close>



subsection \<open>The accumulators after all frames\<close>



subsection \<open>Window sums\<close>





subsection \<open>Framing, then overlap-add\<close>





end
